theory Spec2Isabelle
  imports Complex_Main "HOL-Library.AList"
begin

section \<open>JavaScript values\<close>

text \<open>
  The values a packet field or an entity-state field can hold. A finite number is a
  rational (every finite double is one, and \<open>+0\<close> and \<open>-0\<close> are the same number
  for every operation used here); \<open>NaN\<close> and the two infinities are values of their own.
  An object or array value is a reference, compared by identity.
\<close>

datatype jsval =
    JUndefined
  | JNull
  | JBool bool
  | JNum rat
  | JNaN
  | JPosInfinity
  | JNegInfinity
  | JStr string
  | JRef nat

text \<open>A plain object: its own enumerable properties, in insertion order.\<close>

type_synonym jsobj = "(string \<times> jsval) list"

text \<open>\<open>obj[key]\<close>: the value of the property, \<open>undefined\<close> when the object has none.\<close>

definition getprop :: "jsobj \<Rightarrow> string \<Rightarrow> jsval" where
  "getprop obj key = (case map_of obj key of None \<Rightarrow> JUndefined | Some v \<Rightarrow> v)"

text \<open>\<open>a === b\<close> and \<open>a !== b\<close>: \<open>NaN\<close> is not equal to itself.\<close>

definition strict_eq :: "jsval \<Rightarrow> jsval \<Rightarrow> bool" where
  "strict_eq a b = (a = b \<and> a \<noteq> JNaN)"

definition strict_neq :: "jsval \<Rightarrow> jsval \<Rightarrow> bool" where
  "strict_neq a b = (\<not> strict_eq a b)"

definition Number_isFinite :: "jsval \<Rightarrow> bool" where
  "Number_isFinite v = (case v of JNum q \<Rightarrow> True | _ \<Rightarrow> False)"

definition Number_isInteger :: "jsval \<Rightarrow> bool" where
  "Number_isInteger v = (case v of JNum q \<Rightarrow> of_int \<lfloor>q\<rfloor> = q | _ \<Rightarrow> False)"

definition typeof_string :: "jsval \<Rightarrow> bool" where
  "typeof_string v = (case v of JStr s \<Rightarrow> True | _ \<Rightarrow> False)"

section \<open>utils/math.js\<close>

definition DIRECTION_VECTORS :: "(int \<times> (int \<times> int)) list" where
  "DIRECTION_VECTORS = [(0, (0, -1)), (1, (1, 0)), (2, (0, 1)), (3, (-1, 0))]"

definition isValidDirection :: "jsval \<Rightarrow> bool" where
  "isValidDirection dir =
     (Number_isInteger dir \<and> (case dir of JNum q \<Rightarrow> 0 \<le> q \<and> q \<le> 3 | _ \<Rightarrow> False))"

text \<open>
  \<open>Math.abs(x1 - x2) + Math.abs(y1 - y2)\<close> on finite numbers, the arithmetic taken exact.
\<close>

definition manhattanDistance :: "rat \<Rightarrow> rat \<Rightarrow> rat \<Rightarrow> rat \<Rightarrow> rat" where
  "manhattanDistance x1 y1 x2 y2 = \<bar>x1 - x2\<bar> + \<bar>y1 - y2\<bar>"

definition getKey :: "int \<Rightarrow> int \<Rightarrow> int" where
  "getKey kx ky = 10000 * kx + ky"

section \<open>core/config.js\<close>

record security =
  maxInputBuffer :: int
  speedHackTolerance :: rat
  packetRateLimit :: int
  maxTeleportDistance :: int
  connectionTimeout :: int

text \<open>The \<open>security\<close> section as loaded when no environment variable overrides it.\<close>

definition config_security :: security where
  "config_security =
     \<lparr> maxInputBuffer = 32, speedHackTolerance = 15 / 100, packetRateLimit = 60,
       maxTeleportDistance = 2, connectionTimeout = 30000 \<rparr>"

section \<open>security/antiCheat.js\<close>

record positionSample =
  sample_x :: int
  sample_y :: int
  sample_time :: int

record history =
  positions :: "positionSample list"
  violations :: int
  hist_lastMoveTime :: int

record antiCheat =
  playerHistory :: "(string \<times> history) list"
  maxViolations :: int
  historySize :: nat

definition AntiCheat_new :: antiCheat where
  "AntiCheat_new = \<lparr> playerHistory = [], maxViolations = 10, historySize = 20 \<rparr>"

definition AntiCheat_initPlayer :: "antiCheat \<Rightarrow> string \<Rightarrow> antiCheat" where
  "AntiCheat_initPlayer ac playerId =
     ac\<lparr> playerHistory :=
           AList.update playerId \<lparr> positions = [], violations = 0, hist_lastMoveTime = 0 \<rparr>
             (playerHistory ac) \<rparr>"

text \<open>
  \<open>recordMove\<close> reads the clock twice, for the sample and for \<open>lastMoveTime\<close>;
  \<open>now\<close> and \<open>now'\<close> are the two readings.
\<close>

definition recordMove :: "antiCheat \<Rightarrow> string \<Rightarrow> int \<Rightarrow> int \<Rightarrow> int \<Rightarrow> int \<Rightarrow> antiCheat" where
  "recordMove ac playerId mx my now now' =
     (case map_of (playerHistory ac) playerId of
        None \<Rightarrow> ac
      | Some h \<Rightarrow>
          let pushed = positions h @ [\<lparr> sample_x = mx, sample_y = my, sample_time = now \<rparr>];
              kept = (if length pushed > historySize ac then tl pushed else pushed)
          in ac\<lparr> playerHistory :=
                   AList.update playerId (h\<lparr> positions := kept, hist_lastMoveTime := now' \<rparr>)
                     (playerHistory ac) \<rparr>)"

definition detectSpeedHack :: "security \<Rightarrow> antiCheat \<Rightarrow> string \<Rightarrow> rat \<Rightarrow> bool \<times> antiCheat" where
  "detectSpeedHack cfg ac playerId expectedSpeed =
     (case map_of (playerHistory ac) playerId of
        None \<Rightarrow> (False, ac)
      | Some h \<Rightarrow>
          if length (positions h) < 2 then (False, ac)
          else
            let lastS = positions h ! (length (positions h) - 1);
                prevS = positions h ! (length (positions h) - 2);
                elapsed = sample_time lastS - sample_time prevS;
                minTime = expectedSpeed * (1 - speedHackTolerance cfg)
            in if of_int elapsed < minTime
               then (True,
                     ac\<lparr> playerHistory :=
                           AList.update playerId (h\<lparr> violations := violations h + 1 \<rparr>)
                             (playerHistory ac) \<rparr>)
               else (False, ac))"

definition detectTeleport ::
  "security \<Rightarrow> antiCheat \<Rightarrow> string \<Rightarrow> rat \<Rightarrow> rat \<Rightarrow> rat \<Rightarrow> rat \<Rightarrow> bool \<times> antiCheat" where
  "detectTeleport cfg ac playerId claimedX claimedY serverX serverY =
     (let dist = manhattanDistance claimedX claimedY serverX serverY
      in if dist > of_int (maxTeleportDistance cfg)
         then (True,
               case map_of (playerHistory ac) playerId of
                 None \<Rightarrow> ac
               | Some h \<Rightarrow>
                   ac\<lparr> playerHistory :=
                         AList.update playerId (h\<lparr> violations := violations h + 1 \<rparr>)
                           (playerHistory ac) \<rparr>)
         else (False, ac))"

definition shouldKick :: "antiCheat \<Rightarrow> string \<Rightarrow> bool" where
  "shouldKick ac playerId =
     (case map_of (playerHistory ac) playerId of
        None \<Rightarrow> False
      | Some h \<Rightarrow> violations h \<ge> maxViolations ac)"

definition AntiCheat_removePlayer :: "antiCheat \<Rightarrow> string \<Rightarrow> antiCheat" where
  "AntiCheat_removePlayer ac playerId =
     ac\<lparr> playerHistory := AList.delete playerId (playerHistory ac) \<rparr>"


section \<open>game/sync/deltaCompression.js\<close>

text \<open>
  \<open>previousStates\<close> maps an observer id to its tracking object, whose \<open>entities\<close>
  map holds, per observed entity id, a copy of the state last sent. A \<open>Map\<close> is an
  association list in insertion order; its keys are compared as the datatype's values are.
\<close>

record tracking =
  entities :: "(jsval \<times> jsobj) list"

record deltaCompression =
  previousStates :: "(string \<times> tracking) list"

definition DeltaCompression_new :: deltaCompression where
  "DeltaCompression_new = \<lparr> previousStates = [] \<rparr>"

definition DeltaCompression_initPlayer :: "deltaCompression \<Rightarrow> string \<Rightarrow> deltaCompression" where
  "DeltaCompression_initPlayer dc playerId =
     dc\<lparr> previousStates := AList.update playerId \<lparr> entities = [] \<rparr> (previousStates dc) \<rparr>"

definition DeltaCompression_removePlayer :: "deltaCompression \<Rightarrow> string \<Rightarrow> deltaCompression" where
  "DeltaCompression_removePlayer dc playerId =
     dc\<lparr> previousStates := AList.delete playerId (previousStates dc) \<rparr>"

text \<open>\<open>obj[key] = value\<close>: an existing property keeps its place, a new one goes last.\<close>

definition setprop :: "jsobj \<Rightarrow> string \<Rightarrow> jsval \<Rightarrow> jsobj" where
  "setprop obj key v = AList.update key v obj"

text \<open>
  The loop of \<open>computeDelta\<close> over \<open>Object.entries(currentState)\<close>, carrying
  \<open>delta\<close> and \<open>hasChanges\<close>.
\<close>

fun deltaLoop :: "jsobj \<Rightarrow> jsobj \<Rightarrow> jsobj \<times> bool \<Rightarrow> jsobj \<times> bool" where
  "deltaLoop previousEntity [] acc = acc"
| "deltaLoop previousEntity ((key, v) # rest) (delta, hasChanges) =
     (if strict_neq (getprop previousEntity key) v
      then deltaLoop previousEntity rest (setprop delta key v, True)
      else deltaLoop previousEntity rest (delta, hasChanges))"

text \<open>\<open>prev.entities.set(entityId, { ...currentState })\<close> on the tracking object of \<open>playerId\<close>.\<close>

definition remember ::
  "deltaCompression \<Rightarrow> string \<Rightarrow> tracking \<Rightarrow> jsval \<Rightarrow> jsobj \<Rightarrow> deltaCompression" where
  "remember dc playerId prev entityId currentState =
     dc\<lparr> previousStates :=
           AList.update playerId
             (prev\<lparr> entities := AList.update entityId currentState (entities prev) \<rparr>)
             (previousStates dc) \<rparr>"

text \<open>The result is the object to send, \<open>None\<close> for \<open>null\<close>, and the tracking state after the call.\<close>

definition computeDelta ::
  "deltaCompression \<Rightarrow> string \<Rightarrow> jsval \<Rightarrow> jsobj \<Rightarrow> jsobj option \<times> deltaCompression" where
  "computeDelta dc playerId entityId currentState =
     (case map_of (previousStates dc) playerId of
        None \<Rightarrow> (Some currentState, dc)
      | Some prev \<Rightarrow>
          (case map_of (entities prev) entityId of
             None \<Rightarrow> (Some currentState, remember dc playerId prev entityId currentState)
           | Some previousEntity \<Rightarrow>
               (case deltaLoop previousEntity currentState ([], False) of
                  (delta, hasChanges) \<Rightarrow>
                    if hasChanges
                    then (Some (setprop (setprop delta ''id'' entityId) ''type''
                                  (getprop currentState ''type'')),
                          remember dc playerId prev entityId currentState)
                    else (None, dc))))"

text \<open>A field of the current state counts as changed when \<open>previousEntity[key] !== value\<close>.\<close>

definition changedField :: "jsobj \<Rightarrow> jsobj \<Rightarrow> string \<Rightarrow> bool" where
  "changedField previousEntity currentState key =
     (case map_of currentState key of
        None \<Rightarrow> False
      | Some v \<Rightarrow> strict_neq (getprop previousEntity key) v)"

section \<open>network/packetValidator.js\<close>

text \<open>
  What \<open>JSON.parse\<close> returns: an object with its properties, or any other value
  (a primitive or an array), none of which has a property the validator reads.
\<close>

datatype json = JsonObject jsobj | JsonOther jsval

text \<open>\<open>packet.type\<close> and the other property reads of a parsed packet.\<close>

definition field :: "json \<Rightarrow> string \<Rightarrow> jsval" where
  "field packet key = (case packet of JsonObject obj \<Rightarrow> getprop obj key | JsonOther v \<Rightarrow> JUndefined)"

text \<open>\<open>v >= 0\<close> for a value already known to be a number.\<close>

definition nonNegative :: "jsval \<Rightarrow> bool" where
  "nonNegative v = (case v of JNum q \<Rightarrow> 0 \<le> q | _ \<Rightarrow> False)"

definition validators :: "(string \<times> (jsobj \<Rightarrow> bool)) list" where
  "validators =
    [ (''client'', \<lambda>pkt. typeof_string (getprop pkt ''ver'') \<and> typeof_string (getprop pkt ''agent'')),
      (''login'', \<lambda>pkt. typeof_string (getprop pkt ''data'') \<or>
                          (typeof_string (getprop pkt ''user'') \<and> typeof_string (getprop pkt ''pass''))),
      (''guest'', \<lambda>pkt. True),
      (''h'', \<lambda>pkt. Number_isFinite (getprop pkt ''x'') \<and> Number_isFinite (getprop pkt ''y'') \<and>
                      (getprop pkt ''d'' = JUndefined \<or> isValidDirection (getprop pkt ''d''))),
      (''m'', \<lambda>pkt. Number_isFinite (getprop pkt ''x'') \<and> Number_isFinite (getprop pkt ''y'') \<and>
                      isValidDirection (getprop pkt ''d'')),
      (''a'', \<lambda>pkt. True),
      (''t'', \<lambda>pkt. getprop pkt ''t'' \<noteq> JUndefined),
      (''g'', \<lambda>pkt. True),
      (''u'', \<lambda>pkt. Number_isInteger (getprop pkt ''slot'') \<and> nonNegative (getprop pkt ''slot'')),
      (''d'', \<lambda>pkt. Number_isInteger (getprop pkt ''slot'') \<and> nonNegative (getprop pkt ''slot'')),
      (''sw'', \<lambda>pkt. Number_isInteger (getprop pkt ''slot'') \<and> Number_isInteger (getprop pkt ''swap'') \<and>
                       nonNegative (getprop pkt ''slot'') \<and> nonNegative (getprop pkt ''swap'')),
      (''chat'', \<lambda>pkt. case getprop pkt ''data'' of
                           JStr s \<Rightarrow> length s > 0 \<and> length s \<le> 500 | _ \<Rightarrow> False),
      (''c'', \<lambda>pkt. typeof_string (getprop pkt ''r'')),
      (''bld'', \<lambda>pkt. getprop pkt ''tpl'' \<noteq> JUndefined),
      (''P'', \<lambda>pkt. True),
      (''A'', \<lambda>pkt. True) ]"

definition validate :: "json \<Rightarrow> bool" where
  "validate packet =
     (case packet of
        JsonOther v \<Rightarrow> False
      | JsonObject obj \<Rightarrow>
          (case getprop obj ''type'' of
             JStr t \<Rightarrow>
               (case map_of validators t of
                  None \<Rightarrow> True
                | Some validator \<Rightarrow> validator obj)
           | _ \<Rightarrow> False))"

section \<open>security/rateLimiter.js\<close>

record bucket =
  count :: int
  resetTime :: int

record rateLimiter =
  maxPerSecond :: int
  buckets :: "(string \<times> bucket) list"

definition RateLimiter_check :: "rateLimiter \<Rightarrow> string \<Rightarrow> int \<Rightarrow> bool \<times> rateLimiter" where
  "RateLimiter_check rl sid now =
     (let b = (case map_of (buckets rl) sid of
                 None \<Rightarrow> \<lparr> count = 0, resetTime = now + 1000 \<rparr>
               | Some b0 \<Rightarrow> if now \<ge> resetTime b0
                            then \<lparr> count = 0, resetTime = now + 1000 \<rparr> else b0);
          b' = b\<lparr> count := count b + 1 \<rparr>
      in (count b' \<le> maxPerSecond rl, rl\<lparr> buckets := AList.update sid b' (buckets rl) \<rparr>))"

section \<open>game/world/tileCollision.js and game/world/gameMap.js\<close>

definition BLOCKED_TILES :: "int set" where
  "BLOCKED_TILES = {325}"

text \<open>A tile id of \<open>None\<close> is \<open>undefined\<close>; a wall tile of \<open>None\<close> is \<open>null\<close>.\<close>

definition isTileWalkable :: "int option \<Rightarrow> int option \<Rightarrow> bool" where
  "isTileWalkable tileId wallTile' =
     (case tileId of
        None \<Rightarrow> False
      | Some t \<Rightarrow>
          if t \<in> BLOCKED_TILES then False
          else if wallTile' \<noteq> None \<and> Some t = wallTile' then False
          else True)"

definition getTileSpeedModifier :: "int option \<Rightarrow> (int \<times> int) list \<Rightarrow> int" where
  "getTileSpeedModifier tileId tileSpeedMap =
     (case tileId of
        None \<Rightarrow> 0
      | Some t \<Rightarrow> (case map_of tileSpeedMap t of Some m \<Rightarrow> m | None \<Rightarrow> 0))"

record gameMap =
  width :: int
  height :: int
  tiles :: "int list"
  wallTile :: "int option"
  tileSpeed :: "(int \<times> int) list"
  blockingObjects :: "int set"

definition tileIndex :: "gameMap \<Rightarrow> int \<Rightarrow> int \<Rightarrow> int" where
  "tileIndex m tx ty = ty * width m + tx"

definition inBounds :: "gameMap \<Rightarrow> int \<Rightarrow> int \<Rightarrow> bool" where
  "inBounds m tx ty = (tx \<ge> 0 \<and> tx < width m \<and> ty \<ge> 0 \<and> ty < height m)"

text \<open>Reading the array past its end gives \<open>undefined\<close>.\<close>

definition getTile :: "gameMap \<Rightarrow> int \<Rightarrow> int \<Rightarrow> int option" where
  "getTile m tx ty =
     (if \<not> inBounds m tx ty then None
      else if nat (tileIndex m tx ty) < length (tiles m)
           then Some (tiles m ! nat (tileIndex m tx ty)) else None)"

definition isWalkable :: "gameMap \<Rightarrow> int \<Rightarrow> int \<Rightarrow> bool" where
  "isWalkable m tx ty =
     (if \<not> inBounds m tx ty then False
      else if \<not> isTileWalkable (getTile m tx ty) (wallTile m) then False
      else if getKey tx ty \<in> blockingObjects m then False
      else True)"

section \<open>game/world/mapLoader.js\<close>

text \<open>
  \<open>loadMap\<close> builds the default map: 100 by 100 grass tiles (sprite 0) with a border of
  blocked tiles (sprite 325) and no speed modifiers.
\<close>

definition loadMap :: gameMap where
  "loadMap =
     \<lparr> width = 100, height = 100,
       tiles = map (\<lambda>i. let tx = int i mod 100; ty = int i div 100
                         in if ty = 0 \<or> ty = 99 \<or> tx = 0 \<or> tx = 99 then 325 else 0)
                   [0 ..< 10000],
       wallTile = None, tileSpeed = [], blockingObjects = {} \<rparr>"

text \<open>\<open>getMap\<close> loads the default map for an id it does not hold, then reads the table.\<close>

definition getMap ::
  "(string \<times> gameMap) list \<Rightarrow> string \<Rightarrow> gameMap option \<times> (string \<times> gameMap) list" where
  "getMap maps mid =
     (let maps' = (if map_of maps mid = None then AList.update mid loadMap maps else maps)
      in (map_of maps' mid, maps'))"

section \<open>game/entities/player.js and game/entities/mob.js\<close>

text \<open>
  The fields the movement code reads and writes. Players and mobs share \<open>id\<close> (here
  \<open>ident\<close>), \<open>x\<close>, \<open>y\<close> and \<open>mapId\<close>; positions, speeds and times are integers.
\<close>

record entity =
  ident :: string
  x :: int
  y :: int
  mapId :: string

record player = entity +
  fromX :: int
  fromY :: int
  dir :: int
  speed :: int
  tileSpeedMod :: int
  curSpeed :: int
  isMoving :: bool
  moveStartTime :: int
  lastMoveTime :: int
  inputSequence :: int
  isChatting :: bool

record mob = entity +
  isDead :: bool

definition toUpdatePacket :: "player \<Rightarrow> jsobj" where
  "toUpdatePacket p =
     [ (''type'', JStr ''p''), (''id'', JStr (ident p)), (''s'', JNum (of_int (curSpeed p))),
       (''d'', JNum (of_int (dir p))), (''x'', JNum (of_int (x p))), (''y'', JNum (of_int (y p))),
       (''ch'', JNum (if isChatting p then 1 else 0)) ]"

text \<open>\<open>toPositionPacket()\<close>, with \<open>isTransition\<close> at its default \<open>false\<close>.\<close>

definition toPositionPacket :: "player \<Rightarrow> jsobj" where
  "toPositionPacket p =
     [ (''type'', JStr ''pos''), (''x'', JNum (of_int (x p))), (''y'', JNum (of_int (y p))) ]"

definition toMovePacket :: "player \<Rightarrow> jsobj" where
  "toMovePacket p =
     [ (''type'', JStr ''move''), (''id'', JStr (ident p)),
       (''x'', JNum (of_int (x p))), (''y'', JNum (of_int (y p))) ]"

definition updateCurSpeed :: "player \<Rightarrow> int \<Rightarrow> player" where
  "updateCurSpeed p tileSpeedMod' =
     (let p1 = p\<lparr> tileSpeedMod := tileSpeedMod' \<rparr>;
          p2 = p1\<lparr> curSpeed := speed p1 + tileSpeedMod' \<rparr>
      in if curSpeed p2 < 100 then p2\<lparr> curSpeed := 100 \<rparr> else p2)"

section \<open>core/gameServer.js: the state\<close>

record client =
  sessionId :: string
  client_playerId :: "string option"
  authenticated :: bool
  lastActivity :: int

record networkServer =
  clients :: "(string \<times> client) list"
  rateLimiter :: rateLimiter

text \<open>
  The game server with the subsystems it owns. \<open>pendingMoves\<close> is the movement system's
  table from a player id to the \<open>completeTime\<close> of the move in progress.
\<close>

record gameServer =
  players :: "(string \<times> player) list"
  mobs :: "(string \<times> mob) list"
  mapLoader :: "(string \<times> gameMap) list"
  pendingMoves :: "(string \<times> int) list"
  antiCheat :: antiCheat
  deltaCompression :: deltaCompression
  network :: networkServer

text \<open>
  What a handler asks the network layer to send: \<open>sendToPlayer(id, packet)\<close> and
  \<open>broadcastToNearby(x, y, mapId, packet, excludePlayerId)\<close>.
\<close>

datatype effect =
    SendToPlayer string jsobj
  | BroadcastToNearby int int string jsobj "string option"

definition getPlayer :: "gameServer \<Rightarrow> string option \<Rightarrow> player option" where
  "getPlayer gs pid = (case pid of None \<Rightarrow> None | Some k \<Rightarrow> map_of (players gs) k)"

definition broadcastPlayerUpdate :: "player \<Rightarrow> effect" where
  "broadcastPlayerUpdate p = BroadcastToNearby (x p) (y p) (mapId p) (toUpdatePacket p) None"

section \<open>game/systems/movementSystem.js\<close>

definition sendCorrection :: "player \<Rightarrow> effect" where
  "sendCorrection p = SendToPlayer (ident p) (toPositionPacket p)"

definition occupies :: "'a entity_scheme \<Rightarrow> int \<Rightarrow> int \<Rightarrow> string \<Rightarrow> string \<Rightarrow> bool" where
  "occupies e tx ty mid excludeId =
     (ident e \<noteq> excludeId \<and> mapId e = mid \<and> x e = tx \<and> y e = ty)"

definition isTileOccupiedByEntity ::
  "gameServer \<Rightarrow> int \<Rightarrow> int \<Rightarrow> string \<Rightarrow> string \<Rightarrow> bool" where
  "isTileOccupiedByEntity gs tx ty mid excludeId =
     (if list_ex (\<lambda>q. occupies q tx ty mid excludeId) (map snd (players gs)) then True
      else if list_ex (\<lambda>q. occupies q tx ty mid excludeId) (map snd (mobs gs)) then True
      else False)"

text \<open>
  \<open>handleMoveStart(player, packet)\<close> with \<open>packet.x\<close>, \<open>packet.y\<close> finite numbers and
  \<open>packet.d\<close> any value; \<open>now\<close> is the reading of \<open>Date.now()\<close>. The player object is
  passed by reference: the result is the player as mutated, the server state (its
  \<open>players\<close> table not yet holding the mutated player), and the messages sent, in order.
  A valid direction is a number and has a vector, so the two branches that return without
  a decision (no vector, not a number) are never taken. The speed threshold
  \<open>curSpeed * (1 - speedHackTolerance)\<close> is computed exactly; for integer times and
  speeds and the tolerance 0.15 the source's double arithmetic compares alike, the exact
  product being either an integer, which the rounded product then equals, or at least
  1/20 away from every integer.
\<close>

definition MovementSystem_handleMoveStart ::
  "security \<Rightarrow> gameServer \<Rightarrow> player \<Rightarrow> rat \<Rightarrow> rat \<Rightarrow> jsval \<Rightarrow> int
     \<Rightarrow> player \<times> gameServer \<times> effect list" where
  "MovementSystem_handleMoveStart cfg gs p clientX clientY d now =
     (if \<not> isValidDirection d then (p, gs, [sendCorrection p])
      else if isMoving p then (p, gs, [])
      else
        let positionMismatch = (clientX \<noteq> of_int (x p) \<or> clientY \<noteq> of_int (y p));
            dist = manhattanDistance clientX clientY (of_int (x p)) (of_int (y p))
        in if positionMismatch \<and> dist > of_int (maxTeleportDistance cfg)
           then (p, gs, [sendCorrection p])
           else
             let sent = (if positionMismatch then [sendCorrection p] else [])
             in (case d of
                   JNum q \<Rightarrow>
                     (case map_of DIRECTION_VECTORS \<lfloor>q\<rfloor> of
                        None \<Rightarrow> (p, gs, sent)
                      | Some (dx, dy) \<Rightarrow>
                          let targetX = x p + dx;
                              targetY = y p + dy;
                              (found, maps') = getMap (mapLoader gs) (mapId p);
                              gs1 = gs\<lparr> mapLoader := maps' \<rparr>
                          in (case found of
                                None \<Rightarrow> (p, gs1, sent @ [sendCorrection p])
                              | Some m \<Rightarrow>
                                  if \<not> isWalkable m targetX targetY
                                  then (let p1 = p\<lparr> dir := \<lfloor>q\<rfloor> \<rparr>
                                        in (p1, gs1, sent @ [broadcastPlayerUpdate p1]))
                                  else if isTileOccupiedByEntity gs1 targetX targetY (mapId p) (ident p)
                                  then (let p1 = p\<lparr> dir := \<lfloor>q\<rfloor> \<rparr>
                                        in (p1, gs1, sent @ [broadcastPlayerUpdate p1]))
                                  else if lastMoveTime p > 0 \<and>
                                          of_int (now - lastMoveTime p)
                                            < of_int (curSpeed p) * (1 - speedHackTolerance cfg)
                                  then (p, gs1, sent @ [sendCorrection p])
                                  else
                                    let p1 = p\<lparr> dir := \<lfloor>q\<rfloor>, fromX := x p, fromY := y p,
                                                isMoving := True, moveStartTime := now \<rparr>;
                                        p2 = p1\<lparr> x := targetX, y := targetY, lastMoveTime := now \<rparr>;
                                        p3 = updateCurSpeed p2
                                               (getTileSpeedModifier (getTile m targetX targetY)
                                                  (tileSpeed m));
                                        moved = BroadcastToNearby (x p3) (y p3) (mapId p3)
                                                  (toMovePacket p3) (Some (ident p3));
                                        gs2 = gs1\<lparr> pendingMoves :=
                                                AList.update (ident p3) (now + curSpeed p3)
                                                  (pendingMoves gs1) \<rparr>;
                                        p4 = p3\<lparr> inputSequence := inputSequence p3 + 1 \<rparr>
                                    in (p4, gs2, sent @ [moved])))
                 | _ \<Rightarrow> (p, gs, sent)))"

definition MovementSystem_handleDirectionChange ::
  "player \<Rightarrow> jsval \<Rightarrow> player \<times> effect list" where
  "MovementSystem_handleDirectionChange p d =
     (if \<not> isValidDirection d then (p, [])
      else (case d of
              JNum q \<Rightarrow>
                (let p1 = p\<lparr> dir := \<lfloor>q\<rfloor> \<rparr>
                 in (p1, [BroadcastToNearby (x p1) (y p1) (mapId p1) (toUpdatePacket p1)
                            (Some (ident p1))]))
            | _ \<Rightarrow> (p, [])))"

text \<open>
  One iteration of the loop of \<open>update\<close> over the pending moves, and the loop. Deleting
  the entry being visited does not disturb the iteration over the others.
\<close>

definition completeMove :: "int \<Rightarrow> string \<times> int \<Rightarrow> gameServer \<Rightarrow> gameServer" where
  "completeMove now entry gs =
     (case entry of (pid, completeTime) \<Rightarrow>
        if now \<ge> completeTime
        then (let gs1 = (case getPlayer gs (Some pid) of
                           None \<Rightarrow> gs
                         | Some p \<Rightarrow>
                             gs\<lparr> players :=
                                   AList.update pid
                                     (p\<lparr> isMoving := False, fromX := x p, fromY := y p \<rparr>)
                                     (players gs) \<rparr>)
              in gs1\<lparr> pendingMoves := AList.delete pid (pendingMoves gs1) \<rparr>)
        else gs)"

definition MovementSystem_update :: "gameServer \<Rightarrow> int \<Rightarrow> gameServer" where
  "MovementSystem_update gs now = fold (completeMove now) (pendingMoves gs) gs"

definition MovementSystem_removePlayer :: "gameServer \<Rightarrow> string \<Rightarrow> gameServer" where
  "MovementSystem_removePlayer gs pid = gs\<lparr> pendingMoves := AList.delete pid (pendingMoves gs) \<rparr>"

section \<open>core/gameServer.js: the handlers and the tick\<close>

text \<open>
  \<open>GameServer.handleMoveStart(client, packet)\<close>: the player found under
  \<open>client.playerId\<close> is the object the movement system mutates, so the mutated player
  is stored back under that key.
\<close>

definition GameServer_handleMoveStart ::
  "security \<Rightarrow> gameServer \<Rightarrow> string option \<Rightarrow> rat \<Rightarrow> rat \<Rightarrow> jsval \<Rightarrow> int
     \<Rightarrow> gameServer \<times> effect list" where
  "GameServer_handleMoveStart cfg gs pid clientX clientY d now =
     (case pid of
        None \<Rightarrow> (gs, [])
      | Some k \<Rightarrow>
          (case getPlayer gs (Some k) of
             None \<Rightarrow> (gs, [])
           | Some p \<Rightarrow>
               (case MovementSystem_handleMoveStart cfg gs p clientX clientY d now of
                  (p', gs', out) \<Rightarrow>
                    (gs'\<lparr> players := AList.update k p' (players gs') \<rparr>, out))))"

definition GameServer_handleDirectionChange ::
  "gameServer \<Rightarrow> string option \<Rightarrow> jsval \<Rightarrow> gameServer \<times> effect list" where
  "GameServer_handleDirectionChange gs pid d =
     (case pid of
        None \<Rightarrow> (gs, [])
      | Some k \<Rightarrow>
          (case getPlayer gs (Some k) of
             None \<Rightarrow> (gs, [])
           | Some p \<Rightarrow>
               (case MovementSystem_handleDirectionChange p d of
                  (p', out) \<Rightarrow> (gs\<lparr> players := AList.update k p' (players gs) \<rparr>, out))))"

text \<open>
  \<open>GameServer.update\<close>, the tick: the movement system completes the moves whose time has
  come. The combat system's \<open>update\<close> is empty and the snapshot system's only sends
  rosters; neither writes the state modelled here.
\<close>

definition GameServer_update :: "gameServer \<Rightarrow> int \<Rightarrow> gameServer" where
  "GameServer_update gs now = MovementSystem_update gs now"

section \<open>network/packetRouter.js and network/wsServer.js\<close>

text \<open>
  What became of a received message: dropped before routing, routed to no handler,
  handled by one of the two movement handlers, or handed to a handler outside the
  movement core, whose work is not modelled.
\<close>

datatype dropReason = NoClient | RateLimited | InvalidJSON | InvalidPacket

datatype outcome = Dropped dropReason | Unhandled | Handled string | Unmodelled string

type_synonym handler =
  "security \<Rightarrow> gameServer \<Rightarrow> client \<Rightarrow> jsobj \<Rightarrow> int \<Rightarrow> gameServer \<times> effect list \<times> outcome"

definition handle_h :: handler where
  "handle_h cfg gs c pkt now =
     (case getprop pkt ''x'' of
        JNum clientX \<Rightarrow>
          (case getprop pkt ''y'' of
             JNum clientY \<Rightarrow>
               (case GameServer_handleMoveStart cfg gs (client_playerId c) clientX clientY
                       (getprop pkt ''d'') now of
                  (gs', out) \<Rightarrow> (gs', out, Handled ''h''))
           | _ \<Rightarrow> (gs, [], Unmodelled ''h''))
      | _ \<Rightarrow> (gs, [], Unmodelled ''h''))"

definition handle_m :: handler where
  "handle_m cfg gs c pkt now =
     (case GameServer_handleDirectionChange gs (client_playerId c) (getprop pkt ''d'') of
        (gs', out) \<Rightarrow> (gs', out, Handled ''m''))"

definition other :: "string \<Rightarrow> handler" where
  "other name cfg gs c pkt now = (gs, [], Unmodelled name)"

definition handlers :: "(string \<times> handler) list" where
  "handlers =
     [ (''client'', other ''client''), (''login'', other ''login''), (''guest'', other ''guest''),
       (''h'', handle_h), (''m'', handle_m),
       (''a'', other ''a''), (''t'', other ''t''),
       (''g'', other ''g''), (''u'', other ''u''), (''d'', other ''d''), (''sw'', other ''sw''),
       (''chat'', other ''chat''), (''c'', other ''c''), (''bld'', other ''bld''),
       (''P'', other ''P'') ]"

definition route ::
  "security \<Rightarrow> gameServer \<Rightarrow> client \<Rightarrow> json \<Rightarrow> int \<Rightarrow> gameServer \<times> effect list \<times> outcome" where
  "route cfg gs c packet now =
     (case packet of
        JsonOther v \<Rightarrow> (gs, [], Unhandled)
      | JsonObject pkt \<Rightarrow>
          (case getprop pkt ''type'' of
             JStr t \<Rightarrow>
               (case map_of handlers t of
                  None \<Rightarrow> (gs, [], Unhandled)
                | Some handler \<Rightarrow> handler cfg gs c pkt now)
           | _ \<Rightarrow> (gs, [], Unhandled)))"

text \<open>
  \<open>NetworkServer.handleMessage(sessionId, rawData)\<close>: \<open>parsed\<close> is what \<open>JSON.parse\<close>
  makes of the raw data, \<open>None\<close> when it throws; \<open>now\<close> is the clock when the message
  arrives.
\<close>

definition handleMessage ::
  "security \<Rightarrow> gameServer \<Rightarrow> string \<Rightarrow> json option \<Rightarrow> int
     \<Rightarrow> gameServer \<times> effect list \<times> outcome" where
  "handleMessage cfg gs sid parsed now =
     (case map_of (clients (network gs)) sid of
        None \<Rightarrow> (gs, [], Dropped NoClient)
      | Some c \<Rightarrow>
          (case RateLimiter_check (rateLimiter (network gs)) sid now of
             (allowed, rl') \<Rightarrow>
               let gs1 = gs\<lparr> network := (network gs)\<lparr> rateLimiter := rl' \<rparr> \<rparr>
               in if \<not> allowed then (gs1, [], Dropped RateLimited)
                  else
                    let c' = c\<lparr> lastActivity := now \<rparr>;
                        gs2 = gs1\<lparr> network :=
                                (network gs1)\<lparr> clients := AList.update sid c' (clients (network gs1)) \<rparr> \<rparr>
                    in (case parsed of
                          None \<Rightarrow> (gs2, [], Dropped InvalidJSON)
                        | Some packet \<Rightarrow>
                            if \<not> validate packet then (gs2, [], Dropped InvalidPacket)
                            else route cfg gs2 c' packet now)))"

text \<open>The authoritative position of a participant, when it exists.\<close>

definition positionOf :: "gameServer \<Rightarrow> string \<Rightarrow> (int \<times> int) option" where
  "positionOf gs pid = map_option (\<lambda>p. (x p, y p)) (map_of (players gs) pid)"

section \<open>The server as a state machine\<close>

text \<open>
  What happens to the game state after the participants are spawned: a move-start or a
  face-only packet from the client of a player id reaches its handler, or the tick
  fires; each event carries the clock reading it is handled at.
\<close>

datatype event =
    MoveStart string rat rat jsval int
  | Face string jsval
  | Tick int

fun step :: "security \<Rightarrow> gameServer \<Rightarrow> event \<Rightarrow> gameServer" where
  "step cfg gs (MoveStart k clientX clientY d now) =
     fst (GameServer_handleMoveStart cfg gs (Some k) clientX clientY d now)"
| "step cfg gs (Face k d) = fst (GameServer_handleDirectionChange gs (Some k) d)"
| "step cfg gs (Tick now) = GameServer_update gs now"

fun run :: "security \<Rightarrow> gameServer \<Rightarrow> event list \<Rightarrow> gameServer" where
  "run cfg gs [] = gs"
| "run cfg gs (e # es) = run cfg (step cfg gs e) es"

text \<open>
  The tables as the server builds them: every player is stored under its own id, and no
  id occurs twice in the player table or in the pending moves.
\<close>

definition wellFormed :: "gameServer \<Rightarrow> bool" where
  "wellFormed gs =
     (distinct (map fst (players gs)) \<and> distinct (map fst (pendingMoves gs)) \<and>
      list_all (\<lambda>(k, p). ident p = k) (players gs))"

text \<open>A tick before the given time, or any packet.\<close>

fun before :: "int \<Rightarrow> event \<Rightarrow> bool" where
  "before completeTime (Tick now) = (now < completeTime)"
| "before completeTime e = True"

text \<open>
  The participant \<open>k\<close> is on its way from \<open>(fx, fy)\<close> to \<open>(tx, ty)\<close>, where it
  already stands, and its pending move completes at \<open>completeTime\<close>.
\<close>

definition traversing :: "gameServer \<Rightarrow> string \<Rightarrow> int \<Rightarrow> int \<Rightarrow> int \<Rightarrow> int \<Rightarrow> int \<Rightarrow> bool" where
  "traversing gs k fx fy tx ty completeTime =
     (wellFormed gs \<and> map_of (pendingMoves gs) k = Some completeTime \<and>
      (case map_of (players gs) k of
         None \<Rightarrow> False
       | Some q \<Rightarrow> isMoving q \<and> fromX q = fx \<and> fromY q = fy \<and> x q = tx \<and> y q = ty))"

section \<open>Example states\<close>


definition alice :: player where
  "alice = \<lparr> ident = ''alice'', x = 50, y = 50, mapId = ''overworld'',
             fromX = 50, fromY = 50, dir = 2, speed = 750, tileSpeedMod = 0, curSpeed = 750,
             isMoving = False, moveStartTime = 0, lastMoveTime = 0, inputSequence = 0,
             isChatting = False \<rparr>"

definition bob :: player where
  "bob = \<lparr> ident = ''bob'', x = 51, y = 50, mapId = ''overworld'',
           fromX = 51, fromY = 50, dir = 2, speed = 750, tileSpeedMod = 0, curSpeed = 750,
           isMoving = False, moveStartTime = 0, lastMoveTime = 0, inputSequence = 0,
           isChatting = False \<rparr>"


definition lobby :: "(string \<times> player) list \<Rightarrow> gameServer" where
  "lobby ps =
     \<lparr> players = ps, mobs = [], mapLoader = [(''overworld'', loadMap)], pendingMoves = [],
       antiCheat = \<lparr> playerHistory =
                       map (\<lambda>(k, p). (k, \<lparr> positions = [], violations = 0,
                                             hist_lastMoveTime = 0 \<rparr>)) ps,
                     maxViolations = 10, historySize = 20 \<rparr>,
       deltaCompression = \<lparr> previousStates = map (\<lambda>(k, p). (k, \<lparr> entities = [] \<rparr>)) ps \<rparr>,
       network = \<lparr> clients =
                     map (\<lambda>(k, p). (''session-'' @ k,
                            \<lparr> sessionId = ''session-'' @ k, client_playerId = Some k,
                              authenticated = True, lastActivity = 0 \<rparr>)) ps,
                   rateLimiter = \<lparr> maxPerSecond = 60, buckets = [] \<rparr> \<rparr> \<rparr>"

section \<open>Anti-cheat: the first moves of a session\<close>

lemma map_of_AList_update_same: "map_of (AList.update k v al) k = Some v"
  by (simp add: update_conv')

lemma detectSpeedHack_untracked:
  "map_of (playerHistory ac) playerId = None \<Longrightarrow>
   detectSpeedHack cfg ac playerId expectedSpeed = (False, ac)"
  by (simp add: detectSpeedHack_def)

lemma detectSpeedHack_short:
  "map_of (playerHistory ac) playerId = Some h \<Longrightarrow> length (positions h) < 2 \<Longrightarrow>
   detectSpeedHack cfg ac playerId expectedSpeed = (False, ac)"
  by (simp add: detectSpeedHack_def)

lemma first_move_history:
  "\<exists>h. map_of (playerHistory
             (recordMove (AntiCheat_initPlayer ac playerId) playerId mx my now now')) playerId
         = Some h \<and> length (positions h) < 2"
  by (simp add: recordMove_def AntiCheat_initPlayer_def map_of_AList_update_same Let_def)

text \<open>
  Claim C9. Whatever the participant id and the expected speed, \<open>detectSpeedHack\<close>
  answers \<open>false\<close> and leaves the whole anti-cheat state (so every violation counter)
  as it was when the participant has no history entry or fewer than two recorded
  samples. In particular the first move recorded after \<open>initPlayer\<close> is never flagged,
  however large the historySize is taken to be.
\<close>

theorem C9_detectSpeedHack_needs_two_samples:
  "((case map_of (playerHistory ac) playerId of
       None \<Rightarrow> True | Some h \<Rightarrow> length (positions h) < 2) \<longrightarrow>
      detectSpeedHack cfg ac playerId expectedSpeed = (False, ac))
   \<and> (let ac1 = recordMove (AntiCheat_initPlayer ac0 playerId) playerId mx my now now'
      in detectSpeedHack cfg ac1 playerId expectedSpeed = (False, ac1))"
proof (intro conjI impI)
  assume few: "case map_of (playerHistory ac) playerId of
                 None \<Rightarrow> True | Some h \<Rightarrow> length (positions h) < 2"
  show "detectSpeedHack cfg ac playerId expectedSpeed = (False, ac)"
  proof (cases "map_of (playerHistory ac) playerId")
    case None
    then show ?thesis by (rule detectSpeedHack_untracked)
  next
    case (Some h)
    with few have "length (positions h) < 2" by simp
    with Some show ?thesis by (rule detectSpeedHack_short)
  qed
next
  show "let ac1 = recordMove (AntiCheat_initPlayer ac0 playerId) playerId mx my now now'
        in detectSpeedHack cfg ac1 playerId expectedSpeed = (False, ac1)"
    unfolding Let_def
    using first_move_history [of ac0 playerId mx my now now']
    by (auto intro: detectSpeedHack_short)
qed

theorem C9_witness:
  "detectSpeedHack config_security AntiCheat_new ''p1'' 750 = (False, AntiCheat_new)
   \<and> detectSpeedHack config_security
        \<lparr> playerHistory =
            [(''p1'', \<lparr> positions = [\<lparr> sample_x = 5, sample_y = 5, sample_time = 1000 \<rparr>],
                        violations = 3, hist_lastMoveTime = 1000 \<rparr>)],
          maxViolations = 10, historySize = 20 \<rparr> ''p1'' 750
      = (False,
         \<lparr> playerHistory =
            [(''p1'', \<lparr> positions = [\<lparr> sample_x = 5, sample_y = 5, sample_time = 1000 \<rparr>],
                        violations = 3, hist_lastMoveTime = 1000 \<rparr>)],
          maxViolations = 10, historySize = 20 \<rparr>)"
  using C9_detectSpeedHack_needs_two_samples
          [of AntiCheat_new "''p1''" config_security 750]
        C9_detectSpeedHack_needs_two_samples
          [of "\<lparr> playerHistory =
                  [(''p1'', \<lparr> positions = [\<lparr> sample_x = 5, sample_y = 5, sample_time = 1000 \<rparr>],
                              violations = 3, hist_lastMoveTime = 1000 \<rparr>)],
                maxViolations = 10, historySize = 20 \<rparr>" "''p1''" config_security 750]
  by (simp add: AntiCheat_new_def)

section \<open>Delta compression\<close>




lemma changedField_iff:
  assumes "distinct (map fst cur)"
  shows "(\<exists>k. changedField pe cur k) = (\<exists>e \<in> set cur. strict_neq (getprop pe (fst e)) (snd e))"
proof
  assume "\<exists>k. changedField pe cur k"
  then obtain k where "changedField pe cur k" ..
  then obtain v where "map_of cur k = Some v" "strict_neq (getprop pe k) v"
    by (auto simp: changedField_def split: option.splits)
  then have "(k, v) \<in> set cur" by (auto dest: map_of_SomeD)
  with \<open>strict_neq (getprop pe k) v\<close> show "\<exists>e \<in> set cur. strict_neq (getprop pe (fst e)) (snd e)"
    by force
next
  assume "\<exists>e \<in> set cur. strict_neq (getprop pe (fst e)) (snd e)"
  then obtain k v where kv: "(k, v) \<in> set cur" "strict_neq (getprop pe k) v" by auto
  with assms have "map_of cur k = Some v" by simp
  with kv have "changedField pe cur k" by (simp add: changedField_def)
  then show "\<exists>k. changedField pe cur k" ..
qed


lemma computeDelta_untracked:
  "map_of (previousStates dc) playerId = None \<Longrightarrow>
   computeDelta dc playerId entityId cur = (Some cur, dc)"
  by (simp add: computeDelta_def)






lemma map_of_AList_delete_same: "map_of (AList.delete k al) k = None"
  by (simp add: delete_conv')

text \<open>
  Claim C10. For an observer id without tracking state, \<open>computeDelta\<close> returns the
  full current state and leaves the tracking state as it was, so the same state sent
  again for the same entity is returned in full again. A fresh \<open>DeltaCompression\<close>
  tracks nobody, and \<open>removePlayer\<close> leaves the observer untracked.
\<close>

theorem C10_computeDelta_untracked_observer:
  "(map_of (previousStates dc) playerId = None \<longrightarrow>
      computeDelta dc playerId entityId cur = (Some cur, dc)
      \<and> computeDelta (snd (computeDelta dc playerId entityId cur)) playerId entityId cur
          = (Some cur, dc))
   \<and> computeDelta DeltaCompression_new playerId entityId cur = (Some cur, DeltaCompression_new)
   \<and> computeDelta (DeltaCompression_removePlayer dc playerId) playerId entityId cur
       = (Some cur, DeltaCompression_removePlayer dc playerId)"
  by (simp add: computeDelta_untracked DeltaCompression_new_def
        DeltaCompression_removePlayer_def map_of_AList_delete_same)

theorem C10_witness:
  "computeDelta \<lparr> previousStates = [(''other'', \<lparr> entities = [] \<rparr>)] \<rparr> ''ghost'' (JStr ''e1'')
      [(''type'', JStr ''p''), (''id'', JStr ''e1''), (''x'', JNum 5)]
   = (Some [(''type'', JStr ''p''), (''id'', JStr ''e1''), (''x'', JNum 5)],
      \<lparr> previousStates = [(''other'', \<lparr> entities = [] \<rparr>)] \<rparr>)"
  using C10_computeDelta_untracked_observer
          [of "\<lparr> previousStates = [(''other'', \<lparr> entities = [] \<rparr>)] \<rparr>" "''ghost''"
              "JStr ''e1''" "[(''type'', JStr ''p''), (''id'', JStr ''e1''), (''x'', JNum 5)]"]
  by simp

section \<open>Directions, maps and distances\<close>

lemma isValidDirection_iff:
  "isValidDirection d = (\<exists>n. d = JNum (of_int n) \<and> 0 \<le> n \<and> n \<le> 3)"
proof
  assume v: "isValidDirection d"
  then obtain q where d: "d = JNum q"
    by (cases d) (simp_all add: isValidDirection_def Number_isInteger_def)
  from v d have "(\<exists>n. q = of_int n) \<and> 0 \<le> q \<and> q \<le> 3"
    unfolding isValidDirection_def Number_isInteger_def by auto
  then obtain n where q: "q = of_int n" and r: "0 \<le> q" "q \<le> 3"
    by blast
  from r have "0 \<le> n" "n \<le> 3" unfolding q by simp_all
  with d q show "\<exists>n. d = JNum (of_int n) \<and> 0 \<le> n \<and> n \<le> 3" by blast
next
  assume "\<exists>n. d = JNum (of_int n) \<and> 0 \<le> n \<and> n \<le> 3"
  then show "isValidDirection d"
    by (auto simp: isValidDirection_def Number_isInteger_def)
qed


lemma getMap_found: "\<exists>m. fst (getMap maps mid) = Some m"
  by (cases "map_of maps mid") (simp_all add: getMap_def Let_def update_conv')

lemma getMap_loaded: "map_of maps mid = Some m \<Longrightarrow> getMap maps mid = (Some m, maps)"
  by (simp add: getMap_def)

lemma isTileOccupiedByEntity_mapLoader [simp]:
  "isTileOccupiedByEntity (gs\<lparr> mapLoader := ml \<rparr>) tx ty mid ex = isTileOccupiedByEntity gs tx ty mid ex"
  by (simp add: isTileOccupiedByEntity_def)

lemma manhattanDistance_zero_iff:
  "(manhattanDistance a b c e = 0) = (a = c \<and> b = e)"
  by (auto simp: manhattanDistance_def)

lemma manhattanDistance_nonneg: "0 \<le> manhattanDistance a b c e"
  by (simp add: manhattanDistance_def)

section \<open>Movement: the move-start handler\<close>

text \<open>The handler on a valid direction from an idle participant within the teleport tolerance.\<close>

lemma handleMoveStart_evaluated:
  assumes dirn: "0 \<le> n" "n \<le> 3"
    and idle: "\<not> isMoving p"
    and near: "manhattanDistance cx cy (of_int (x p)) (of_int (y p)) \<le> of_int (maxTeleportDistance cfg)"
    and vec: "map_of DIRECTION_VECTORS n = Some (dx, dy)"
    and gm: "getMap (mapLoader gs) (mapId p) = (Some m, maps')"
  shows "MovementSystem_handleMoveStart cfg gs p cx cy (JNum (of_int n)) now =
     (let sent = (if cx \<noteq> of_int (x p) \<or> cy \<noteq> of_int (y p) then [sendCorrection p] else []);
          gs1 = gs\<lparr> mapLoader := maps' \<rparr>;
          tx = x p + dx; ty = y p + dy
      in if \<not> isWalkable m tx ty \<or> isTileOccupiedByEntity gs tx ty (mapId p) (ident p)
         then (p\<lparr> dir := n \<rparr>, gs1, sent @ [broadcastPlayerUpdate (p\<lparr> dir := n \<rparr>)])
         else if lastMoveTime p > 0 \<and>
                 of_int (now - lastMoveTime p) < of_int (curSpeed p) * (1 - speedHackTolerance cfg)
         then (p, gs1, sent @ [sendCorrection p])
         else
           (let p3 = updateCurSpeed
                       (p\<lparr> dir := n, fromX := x p, fromY := y p, isMoving := True,
                           moveStartTime := now, x := tx, y := ty, lastMoveTime := now \<rparr>)
                       (getTileSpeedModifier (getTile m tx ty) (tileSpeed m))
            in (p3\<lparr> inputSequence := inputSequence p3 + 1 \<rparr>,
                gs1\<lparr> pendingMoves := AList.update (ident p3) (now + curSpeed p3) (pendingMoves gs) \<rparr>,
                sent @ [BroadcastToNearby (x p3) (y p3) (mapId p3) (toMovePacket p3)
                          (Some (ident p3))])))"
proof -
  have valid: "isValidDirection (JNum (of_int n))"
    using dirn by (auto simp: isValidDirection_iff)
  show ?thesis
    unfolding MovementSystem_handleMoveStart_def
    using valid idle near vec gm
    by (simp add: Let_def)
qed


lemma loadMap_inner_walkable:
  "0 < tx \<Longrightarrow> tx < 99 \<Longrightarrow> 0 < ty \<Longrightarrow> ty < 99 \<Longrightarrow> isWalkable loadMap tx ty"
proof -
  assume a: "0 < tx" "tx < 99" "0 < ty" "ty < 99"
  then have idx: "0 \<le> ty * 100 + tx" "ty * 100 + tx < 10000" by auto
  then have n: "nat (ty * 100 + tx) < 10000" by simp
  have m: "(ty * 100 + tx) mod 100 = tx" "(ty * 100 + tx) div 100 = ty"
    using a by auto
  show ?thesis
    using a n m idx
    by (simp add: isWalkable_def inBounds_def loadMap_def getTile_def tileIndex_def
          isTileWalkable_def BLOCKED_TILES_def getKey_def Let_def)
qed

lemma loadMap_tile: "0 < tx \<Longrightarrow> tx < 99 \<Longrightarrow> 0 < ty \<Longrightarrow> ty < 99 \<Longrightarrow> getTile loadMap tx ty = Some 0"
proof -
  assume a: "0 < tx" "tx < 99" "0 < ty" "ty < 99"
  then have idx: "0 \<le> ty * 100 + tx" "ty * 100 + tx < 10000" by auto
  then have n: "nat (ty * 100 + tx) < 10000" by simp
  have m: "(ty * 100 + tx) mod 100 = tx" "(ty * 100 + tx) div 100 = ty"
    using a by auto
  show ?thesis
    using a n m idx
    by (simp add: inBounds_def loadMap_def getTile_def tileIndex_def Let_def)
qed


lemma lobby_map: "getMap (mapLoader (lobby ps)) ''overworld'' = (Some loadMap, mapLoader (lobby ps))"
  by (simp add: getMap_def lobby_def)




text \<open>The movement handler never touches the anti-cheat state, whatever it decides.\<close>

lemma handleMoveStart_antiCheat:
  "antiCheat (fst (snd (MovementSystem_handleMoveStart cfg gs p cx cy d now))) = antiCheat gs"
  unfolding MovementSystem_handleMoveStart_def
  by (simp add: Let_def split: jsval.split option.split prod.split)



lemma handleMoveStart_teleport:
  assumes "\<not> isMoving p"
    and "manhattanDistance cx cy (of_int (x p)) (of_int (y p)) > of_int (maxTeleportDistance cfg)"
    and "0 \<le> maxTeleportDistance cfg"
  shows "MovementSystem_handleMoveStart cfg gs p cx cy d now = (p, gs, [sendCorrection p])"
proof -
  have "manhattanDistance cx cy (of_int (x p)) (of_int (y p)) \<noteq> 0"
    using assms(2,3) by auto
  then have "cx \<noteq> of_int (x p) \<or> cy \<noteq> of_int (y p)"
    by (simp add: manhattanDistance_zero_iff)
  with assms(1,2) show ?thesis
    by (simp add: MovementSystem_handleMoveStart_def Let_def)
qed



section \<open>Movement: example runs and the checks in order\<close>

lemma alice_fields:
  "ident alice = ''alice''" "x alice = 50" "y alice = 50" "mapId alice = ''overworld''"
  "isMoving alice = False" "lastMoveTime alice = 0" "curSpeed alice = 750" "dir alice = 2"
  "fromX alice = 50" "fromY alice = 50" "speed alice = 750"
  by (simp_all add: alice_def)

lemma lobby_fields:
  "players (lobby ps) = ps" "mobs (lobby ps) = []" "pendingMoves (lobby ps) = []"
  "mapLoader (lobby ps) = [(''overworld'', loadMap)]"
  by (simp_all add: lobby_def)


lemma default_tolerance: "speedHackTolerance config_security = 15 / 100"
  and default_teleport: "maxTeleportDistance config_security = 2"
  by (simp_all add: config_security_def)







lemma bob_fields:
  "ident bob = ''bob''" "x bob = 51" "y bob = 50" "mapId bob = ''overworld''"
  by (simp_all add: bob_def)

lemma bob_blocks_alice:
  "isTileOccupiedByEntity (lobby [(''alice'', alice), (''bob'', bob)]) (x alice + 1) (y alice + 0)
     (mapId alice) (ident alice)"
  by (simp add: isTileOccupiedByEntity_def lobby_fields occupies_def alice_fields bob_fields)

text \<open>
  Claim C5, as stated, fails for an intent whose claimed position is beyond the teleport
  tolerance: Alice stands at (50, 50) with Bob on the tile to her right, and claims to be
  at (10, 10) while asking to step right. The handler answers with a position correction
  only; her facing stays 2 and no facing update is broadcast.
\<close>

theorem C5_counterexample:
  "\<not> isMoving alice
   \<and> map_of DIRECTION_VECTORS 1 = Some (1, 0)
   \<and> isTileOccupiedByEntity (lobby [(''alice'', alice), (''bob'', bob)]) (x alice + 1) (y alice + 0)
        (mapId alice) (ident alice)
   \<and> MovementSystem_handleMoveStart config_security (lobby [(''alice'', alice), (''bob'', bob)])
        alice 10 10 (JNum 1) 5000
      = (alice, lobby [(''alice'', alice), (''bob'', bob)], [sendCorrection alice])
   \<and> dir alice \<noteq> 1"
proof -
  have idle: "\<not> isMoving alice" by (simp add: alice_fields)
  have far: "manhattanDistance 10 10 (of_int (x alice)) (of_int (y alice))
               > of_int (maxTeleportDistance config_security)"
    by (simp add: manhattanDistance_def alice_fields default_teleport)
  have "MovementSystem_handleMoveStart config_security (lobby [(''alice'', alice), (''bob'', bob)])
          alice 10 10 (JNum 1) 5000
        = (alice, lobby [(''alice'', alice), (''bob'', bob)], [sendCorrection alice])"
    by (rule handleMoveStart_teleport [OF idle far]) (simp add: default_teleport)
  with idle bob_blocks_alice show ?thesis
    by (simp add: alice_fields DIRECTION_VECTORS_def)
qed

text \<open>
  Claim C5, amended. For a move-start intent with a valid direction, from a participant
  that is not moving and whose claimed position is within the teleport tolerance, whose
  target tile is occupied by another participant or mob on the same map: the facing is
  set to the intent's direction and broadcast (after a position correction when the
  claimed position differs from the authoritative one), and nothing else of the
  participant changes; in particular \<open>x\<close>, \<open>y\<close>, \<open>fromX\<close>, \<open>fromY\<close>,
  \<open>isMoving\<close> and \<open>lastMoveTime\<close> are unchanged, and so are the pending moves.
\<close>

theorem C5_occupied_target_faces_only:
  assumes dirn: "0 \<le> n" "n \<le> 3"
    and idle: "\<not> isMoving p"
    and near: "manhattanDistance cx cy (of_int (x p)) (of_int (y p))
                 \<le> of_int (maxTeleportDistance cfg)"
    and vec: "map_of DIRECTION_VECTORS n = Some (dx, dy)"
    and occupied: "isTileOccupiedByEntity gs (x p + dx) (y p + dy) (mapId p) (ident p)"
  shows "case MovementSystem_handleMoveStart cfg gs p cx cy (JNum (of_int n)) now of
           (p', gs', out) \<Rightarrow>
             p' = p\<lparr> dir := n \<rparr>
             \<and> x p' = x p \<and> y p' = y p \<and> fromX p' = fromX p \<and> fromY p' = fromY p
             \<and> isMoving p' = isMoving p \<and> lastMoveTime p' = lastMoveTime p
             \<and> pendingMoves gs' = pendingMoves gs \<and> players gs' = players gs \<and> mobs gs' = mobs gs
             \<and> out = (if cx \<noteq> of_int (x p) \<or> cy \<noteq> of_int (y p) then [sendCorrection p] else [])
                     @ [broadcastPlayerUpdate (p\<lparr> dir := n \<rparr>)]"
proof -
  obtain found maps' where "getMap (mapLoader gs) (mapId p) = (found, maps')"
    by (cases "getMap (mapLoader gs) (mapId p)")
  with getMap_found [of "mapLoader gs" "mapId p"] obtain m
    where gm: "getMap (mapLoader gs) (mapId p) = (Some m, maps')" by auto
  show ?thesis
    unfolding handleMoveStart_evaluated [OF dirn idle near vec gm, of now]
    using occupied by (simp add: Let_def)
qed

theorem C5_witness:
  "MovementSystem_handleMoveStart config_security (lobby [(''alice'', alice), (''bob'', bob)])
     alice 50 50 (JNum 1) 5000
   = (alice\<lparr> dir := 1 \<rparr>,
      lobby [(''alice'', alice), (''bob'', bob)],
      [broadcastPlayerUpdate (alice\<lparr> dir := 1 \<rparr>)])"
proof -
  let ?gs = "lobby [(''alice'', alice), (''bob'', bob)]"
  have one: "(0::int) \<le> 1" "(1::int) \<le> 3" by simp_all
  have idle: "\<not> isMoving alice" by (simp add: alice_fields)
  have near: "manhattanDistance 50 50 (of_int (x alice)) (of_int (y alice))
                \<le> of_int (maxTeleportDistance config_security)"
    by (simp add: manhattanDistance_def alice_fields default_teleport)
  have vec: "map_of DIRECTION_VECTORS 1 = Some (1, 0)"
    by (simp add: DIRECTION_VECTORS_def)
  obtain p' gs' out
    where r: "MovementSystem_handleMoveStart config_security ?gs alice 50 50 (JNum 1) 5000
                = (p', gs', out)"
    by (cases "MovementSystem_handleMoveStart config_security ?gs alice 50 50 (JNum 1) 5000")
  have maps: "mapLoader gs' = mapLoader ?gs" and others: "antiCheat gs' = antiCheat ?gs"
    "deltaCompression gs' = deltaCompression ?gs" "network gs' = network ?gs"
    using r lobby_map [of "[(''alice'', alice), (''bob'', bob)]"]
    by (auto simp: MovementSystem_handleMoveStart_def Let_def alice_fields
          split: if_splits option.splits prod.splits)
  have "p' = alice\<lparr> dir := 1 \<rparr> \<and> pendingMoves gs' = pendingMoves ?gs
        \<and> players gs' = players ?gs \<and> mobs gs' = mobs ?gs
        \<and> out = [broadcastPlayerUpdate (alice\<lparr> dir := 1 \<rparr>)]"
    using C5_occupied_target_faces_only [OF one idle near vec bob_blocks_alice, of 5000] r
    by (simp add: alice_fields)
  moreover from this maps others have "gs' = ?gs" by simp
  ultimately show ?thesis using r by simp
qed

section \<open>Packet validation\<close>

lemma validate_m:
  "getprop pkt ''type'' = JStr ''m'' \<Longrightarrow>
   validate (JsonObject pkt) =
     (Number_isFinite (getprop pkt ''x'') \<and> Number_isFinite (getprop pkt ''y'') \<and>
      isValidDirection (getprop pkt ''d''))"
  by (simp add: validate_def validators_def)

lemma validate_h:
  "getprop pkt ''type'' = JStr ''h'' \<Longrightarrow>
   validate (JsonObject pkt) =
     (Number_isFinite (getprop pkt ''x'') \<and> Number_isFinite (getprop pkt ''y'') \<and>
      (getprop pkt ''d'' = JUndefined \<or> isValidDirection (getprop pkt ''d'')))"
  by (simp add: validate_def validators_def)

lemma handleMessage_invalid:
  assumes "\<not> validate packet"
  shows "\<exists>gs' r. handleMessage cfg gs sid (Some packet) now = (gs', [], Dropped r)
           \<and> players gs' = players gs \<and> pendingMoves gs' = pendingMoves gs
           \<and> antiCheat gs' = antiCheat gs"
proof (cases "map_of (clients (network gs)) sid")
  case None
  then show ?thesis by (simp add: handleMessage_def)
next
  case (Some c)
  obtain allowed rl' where rl: "RateLimiter_check (rateLimiter (network gs)) sid now = (allowed, rl')"
    by (cases "RateLimiter_check (rateLimiter (network gs)) sid now")
  show ?thesis
    using Some rl assms by (cases allowed) (simp_all add: handleMessage_def Let_def)
qed

text \<open>
  Claim C8, as stated, fails for a move-start packet without a direction: the packet
  \<open>{type: "h", x: 50, y: 50}\<close> passes validation although its \<open>d\<close> is not an
  integer in [0, 3], and it is routed to the move-start handler.
\<close>

theorem C8_counterexample:
  "validate (JsonObject [(''type'', JStr ''h''), (''x'', JNum 50), (''y'', JNum 50)])
   \<and> \<not> isValidDirection (getprop [(''type'', JStr ''h''), (''x'', JNum 50), (''y'', JNum 50)] ''d'')
   \<and> snd (snd (handleMessage config_security (lobby [(''alice'', alice)]) ''session-alice''
                  (Some (JsonObject [(''type'', JStr ''h''), (''x'', JNum 50), (''y'', JNum 50)]))
                  5000)) = Handled ''h''"
proof -
  let ?pkt = "[(''type'', JStr ''h''), (''x'', JNum 50), (''y'', JNum 50)]"
  have v: "validate (JsonObject ?pkt)"
    by (simp add: validate_h getprop_def Number_isFinite_def)
  have nd: "\<not> isValidDirection (getprop ?pkt ''d'')"
    by (simp add: getprop_def isValidDirection_def Number_isInteger_def)
  have "snd (snd (handleMessage config_security (lobby [(''alice'', alice)]) ''session-alice''
                  (Some (JsonObject ?pkt)) 5000)) = Handled ''h''"
    using v
    by (simp add: handleMessage_def lobby_def RateLimiter_check_def Let_def route_def
          handlers_def handle_h_def getprop_def split: prod.split)
  with v nd show ?thesis by simp
qed

text \<open>
  Claim C8, amended. An \<open>m\<close> packet passes validation exactly when its \<open>x\<close> and
  \<open>y\<close> are finite numbers and its \<open>d\<close> is an integer in [0, 3]. An \<open>h\<close> packet
  passes exactly when its \<open>x\<close> and \<open>y\<close> are finite numbers and its \<open>d\<close> is either
  absent (\<open>undefined\<close>) or an integer in [0, 3]. A packet that fails validation is
  dropped by \<open>handleMessage\<close> before routing: no handler runs, nothing is sent, and the
  players, the pending moves and the anti-cheat state are as before.
\<close>

theorem C8_movement_packets_validated:
  "(getprop pkt ''type'' = JStr ''m'' \<longrightarrow>
      validate (JsonObject pkt) =
        (Number_isFinite (getprop pkt ''x'') \<and> Number_isFinite (getprop pkt ''y'') \<and>
         (\<exists>n. getprop pkt ''d'' = JNum (of_int n) \<and> 0 \<le> n \<and> n \<le> 3)))
   \<and> (getprop pkt ''type'' = JStr ''h'' \<longrightarrow>
      validate (JsonObject pkt) =
        (Number_isFinite (getprop pkt ''x'') \<and> Number_isFinite (getprop pkt ''y'') \<and>
         (getprop pkt ''d'' = JUndefined \<or>
          (\<exists>n. getprop pkt ''d'' = JNum (of_int n) \<and> 0 \<le> n \<and> n \<le> 3))))
   \<and> (\<not> validate packet \<longrightarrow>
      (\<exists>gs' r. handleMessage cfg gs sid (Some packet) now = (gs', [], Dropped r)
         \<and> players gs' = players gs \<and> pendingMoves gs' = pendingMoves gs
         \<and> antiCheat gs' = antiCheat gs))"
  using validate_m [of pkt] validate_h [of pkt] handleMessage_invalid [of packet cfg gs sid now]
  by (simp add: isValidDirection_iff)

theorem C8_witness:
  "validate (JsonObject [(''type'', JStr ''m''), (''x'', JNum 5), (''y'', JNum 5), (''d'', JNum 2)])
   \<and> \<not> validate (JsonObject [(''type'', JStr ''m''), (''x'', JNum 5), (''y'', JNum 5), (''d'', JNum 7)])
   \<and> \<not> validate (JsonObject [(''type'', JStr ''h''), (''x'', JStr ''5''), (''y'', JNum 5), (''d'', JNum 2)])
   \<and> (\<exists>gs' r. handleMessage config_security (lobby [(''alice'', alice)]) ''session-alice''
                 (Some (JsonObject [(''type'', JStr ''m''), (''x'', JNum 5), (''y'', JNum 5),
                                    (''d'', JNum 7)])) 5000
               = (gs', [], Dropped r))"
proof -
  let ?good = "[(''type'', JStr ''m''), (''x'', JNum 5), (''y'', JNum 5), (''d'', JNum 2)]"
  let ?bad = "[(''type'', JStr ''m''), (''x'', JNum 5), (''y'', JNum 5), (''d'', JNum 7)]"
  let ?text = "[(''type'', JStr ''h''), (''x'', JStr ''5''), (''y'', JNum 5), (''d'', JNum 2)]"
  have a: "validate (JsonObject ?good)"
    using C8_movement_packets_validated [of ?good]
    by (simp add: getprop_def Number_isFinite_def)
  have b: "\<not> validate (JsonObject ?bad)"
    using C8_movement_packets_validated [of ?bad]
    by (auto simp: getprop_def Number_isFinite_def)
  have c: "\<not> validate (JsonObject ?text)"
    using C8_movement_packets_validated [of ?text]
    by (simp add: getprop_def Number_isFinite_def)
  have d: "\<exists>gs' r. handleMessage config_security (lobby [(''alice'', alice)]) ''session-alice''
                 (Some (JsonObject ?bad)) 5000 = (gs', [], Dropped r)"
    using C8_movement_packets_validated
            [of ?bad "JsonObject ?bad" config_security "lobby [(''alice'', alice)]"
               "''session-alice''" 5000] b
    by blast
  from a b c d show ?thesis by blast
qed

section \<open>Movement over time: packets and ticks\<close>

lemma update_keeps_idents:
  "list_all (\<lambda>(k, p). ident p = k) al \<Longrightarrow> ident v = k' \<Longrightarrow>
   list_all (\<lambda>(k, p). ident p = k) (AList.update k' v al)"
  by (induction al) auto

lemma wellFormed_ident:
  assumes "wellFormed gs" and "map_of (players gs) k = Some p"
  shows "ident p = k"
proof -
  from assms(2) have "(k, p) \<in> set (players gs)" by (rule map_of_SomeD)
  moreover from assms(1) have "list_all (\<lambda>(k, p). ident p = k) (players gs)"
    by (simp add: wellFormed_def)
  ultimately show ?thesis by (auto simp: list_all_iff)
qed

lemma handleMoveStart_ident:
  "ident (fst (MovementSystem_handleMoveStart cfg gs p cx cy d now)) = ident p"
  unfolding MovementSystem_handleMoveStart_def
  by (simp add: Let_def updateCurSpeed_def split: jsval.split option.split prod.split)

lemma handleMoveStart_players:
  "players (fst (snd (MovementSystem_handleMoveStart cfg gs p cx cy d now))) = players gs"
  unfolding MovementSystem_handleMoveStart_def
  by (simp add: Let_def split: jsval.split option.split prod.split)

lemma handleMoveStart_pending_other:
  "k \<noteq> ident p \<Longrightarrow>
   map_of (pendingMoves (fst (snd (MovementSystem_handleMoveStart cfg gs p cx cy d now)))) k
     = map_of (pendingMoves gs) k"
  unfolding MovementSystem_handleMoveStart_def
  by (simp add: Let_def updateCurSpeed_def update_conv' split: jsval.split option.split prod.split)

lemma handleMoveStart_pending_distinct:
  "distinct (map fst (pendingMoves gs)) \<Longrightarrow>
   distinct (map fst (pendingMoves (fst (snd (MovementSystem_handleMoveStart cfg gs p cx cy d now)))))"
  unfolding MovementSystem_handleMoveStart_def
  by (simp add: Let_def distinct_update split: jsval.split option.split prod.split)

lemma handleMoveStart_moving:
  "isMoving p \<Longrightarrow>
   fst (MovementSystem_handleMoveStart cfg gs p cx cy d now) = p \<and>
   fst (snd (MovementSystem_handleMoveStart cfg gs p cx cy d now)) = gs"
  by (simp add: MovementSystem_handleMoveStart_def)


lemma GameServer_handleMoveStart_wellFormed:
  assumes wf: "wellFormed gs"
  shows "wellFormed (fst (GameServer_handleMoveStart cfg gs (Some k') cx cy d now))"
proof (cases "map_of (players gs) k'")
  case None
  with wf show ?thesis by (simp add: GameServer_handleMoveStart_def getPlayer_def)
next
  case (Some p)
  obtain p' gs' out
    where r: "MovementSystem_handleMoveStart cfg gs p cx cy d now = (p', gs', out)"
    by (cases "MovementSystem_handleMoveStart cfg gs p cx cy d now")
  have id: "ident p' = k'"
    using handleMoveStart_ident [of cfg gs p cx cy d now] r wellFormed_ident [OF wf Some] by simp
  have pl: "players gs' = players gs"
    using handleMoveStart_players [of cfg gs p cx cy d now] r by simp
  have pd: "distinct (map fst (pendingMoves gs'))"
    using handleMoveStart_pending_distinct [of gs cfg p cx cy d now] r wf
    by (simp add: wellFormed_def)
  have "wellFormed (gs'\<lparr> players := AList.update k' p' (players gs') \<rparr>)"
    using wf pl pd id by (simp add: wellFormed_def distinct_update update_keeps_idents)
  with Some r show ?thesis by (simp add: GameServer_handleMoveStart_def getPlayer_def)
qed

lemma GameServer_handleMoveStart_other:
  assumes wf: "wellFormed gs" and other: "k' \<noteq> k"
  shows "map_of (players (fst (GameServer_handleMoveStart cfg gs (Some k') cx cy d now))) k
           = map_of (players gs) k
       \<and> map_of (pendingMoves (fst (GameServer_handleMoveStart cfg gs (Some k') cx cy d now))) k
           = map_of (pendingMoves gs) k"
proof (cases "map_of (players gs) k'")
  case None
  then show ?thesis by (simp add: GameServer_handleMoveStart_def getPlayer_def)
next
  case (Some p)
  obtain p' gs' out
    where r: "MovementSystem_handleMoveStart cfg gs p cx cy d now = (p', gs', out)"
    by (cases "MovementSystem_handleMoveStart cfg gs p cx cy d now")
  have id: "ident p = k'" by (rule wellFormed_ident [OF wf Some])
  have pl: "players gs' = players gs"
    using handleMoveStart_players [of cfg gs p cx cy d now] r by simp
  have pd: "map_of (pendingMoves gs') k = map_of (pendingMoves gs) k"
    using handleMoveStart_pending_other [of k p cfg gs cx cy d now] r id other by simp
  from Some r pl pd other show ?thesis
    by (simp add: GameServer_handleMoveStart_def getPlayer_def update_conv')
qed

lemma GameServer_handleMoveStart_moving:
  assumes "map_of (players gs) k = Some q" and "isMoving q"
  shows "map_of (players (fst (GameServer_handleMoveStart cfg gs (Some k) cx cy d now))) k = Some q
       \<and> pendingMoves (fst (GameServer_handleMoveStart cfg gs (Some k) cx cy d now))
           = pendingMoves gs"
proof -
  obtain p' gs' out
    where r: "MovementSystem_handleMoveStart cfg gs q cx cy d now = (p', gs', out)"
    by (cases "MovementSystem_handleMoveStart cfg gs q cx cy d now")
  with handleMoveStart_moving [OF assms(2), of cfg gs cx cy d now]
  have "p' = q" "gs' = gs" by simp_all
  with assms(1) r show ?thesis
    by (simp add: GameServer_handleMoveStart_def getPlayer_def update_conv')
qed

lemma GameServer_handleDirectionChange_wellFormed:
  assumes wf: "wellFormed gs"
  shows "wellFormed (fst (GameServer_handleDirectionChange gs (Some k') d))"
proof (cases "map_of (players gs) k'")
  case None
  with wf show ?thesis by (simp add: GameServer_handleDirectionChange_def getPlayer_def)
next
  case (Some p)
  obtain p' out where r: "MovementSystem_handleDirectionChange p d = (p', out)"
    by (cases "MovementSystem_handleDirectionChange p d")
  then have "ident p' = ident p"
    by (auto simp: MovementSystem_handleDirectionChange_def Let_def
          split: if_splits jsval.splits)
  with wellFormed_ident [OF wf Some] have id: "ident p' = k'" by simp
  have "wellFormed (gs\<lparr> players := AList.update k' p' (players gs) \<rparr>)"
    using wf id by (simp add: wellFormed_def distinct_update update_keeps_idents)
  with Some r show ?thesis
    by (simp add: GameServer_handleDirectionChange_def getPlayer_def)
qed

lemma GameServer_handleDirectionChange_pending:
  "pendingMoves (fst (GameServer_handleDirectionChange gs (Some k') d)) = pendingMoves gs"
  by (simp add: GameServer_handleDirectionChange_def split: option.split prod.split)

lemma GameServer_handleDirectionChange_player:
  assumes "map_of (players gs) k = Some q"
  shows "\<exists>q'. map_of (players (fst (GameServer_handleDirectionChange gs (Some k') d))) k = Some q'
           \<and> isMoving q' = isMoving q \<and> fromX q' = fromX q \<and> fromY q' = fromY q
           \<and> x q' = x q \<and> y q' = y q"
proof (cases "k' = k")
  case True
  with assms show ?thesis
    by (simp add: GameServer_handleDirectionChange_def getPlayer_def update_conv'
          MovementSystem_handleDirectionChange_def Let_def split: jsval.split)
next
  case False
  with assms show ?thesis
    by (simp add: GameServer_handleDirectionChange_def getPlayer_def update_conv'
          split: option.split prod.split)
qed


lemma completeMove_early: "now < snd e \<Longrightarrow> completeMove now e gs = gs"
  by (cases e) (simp add: completeMove_def)

lemma completeMove_other:
  "fst e \<noteq> k \<Longrightarrow>
   map_of (players (completeMove now e gs)) k = map_of (players gs) k \<and>
   map_of (pendingMoves (completeMove now e gs)) k = map_of (pendingMoves gs) k"
  by (cases e)
     (simp add: completeMove_def getPlayer_def Let_def update_conv' delete_conv'
        split: option.split)

lemma completeMove_done:
  "c \<le> now \<Longrightarrow> map_of (players gs) k = Some q \<Longrightarrow>
   map_of (players (completeMove now (k, c) gs)) k
     = Some (q\<lparr> isMoving := False, fromX := x q, fromY := y q \<rparr>) \<and>
   map_of (pendingMoves (completeMove now (k, c) gs)) k = None"
  by (simp add: completeMove_def getPlayer_def Let_def update_conv' delete_conv')

lemma completeMove_wellFormed:
  assumes wf: "wellFormed gs"
  shows "wellFormed (completeMove now e gs)"
proof -
  obtain pid c where e: "e = (pid, c)" by (cases e)
  show ?thesis
  proof (cases "map_of (players gs) pid")
    case None
    with wf show ?thesis
      by (simp add: e completeMove_def getPlayer_def Let_def wellFormed_def distinct_delete)
  next
    case (Some p)
    have "ident (p\<lparr> isMoving := False, fromX := x p, fromY := y p \<rparr>) = pid"
      using wellFormed_ident [OF wf Some] by simp
    with wf Some show ?thesis
      by (simp add: e completeMove_def getPlayer_def Let_def wellFormed_def distinct_delete
            distinct_update update_keeps_idents)
  qed
qed

lemma fold_completeMove_wellFormed:
  "wellFormed gs \<Longrightarrow> wellFormed (fold (completeMove now) es gs)"
  by (induction es arbitrary: gs) (simp_all add: completeMove_wellFormed)

lemma fold_completeMove_untouched:
  "\<forall>e \<in> set es. fst e = k \<longrightarrow> now < snd e \<Longrightarrow>
   map_of (players (fold (completeMove now) es gs)) k = map_of (players gs) k \<and>
   map_of (pendingMoves (fold (completeMove now) es gs)) k = map_of (pendingMoves gs) k"
proof (induction es arbitrary: gs)
  case Nil
  show ?case by simp
next
  case (Cons e es)
  have one: "map_of (players (completeMove now e gs)) k = map_of (players gs) k \<and>
             map_of (pendingMoves (completeMove now e gs)) k = map_of (pendingMoves gs) k"
  proof (cases "fst e = k")
    case True
    with Cons.prems have "now < snd e" by simp
    then show ?thesis by (simp add: completeMove_early)
  next
    case False
    then show ?thesis by (rule completeMove_other)
  qed
  from Cons.prems have "\<forall>e \<in> set es. fst e = k \<longrightarrow> now < snd e" by simp
  from Cons.IH [OF this, of "completeMove now e gs"] one show ?case by simp
qed

lemma fold_completeMove_done:
  "distinct (map fst es) \<Longrightarrow> (k, c) \<in> set es \<Longrightarrow> c \<le> now \<Longrightarrow>
   map_of (players gs) k = Some q \<Longrightarrow>
   map_of (players (fold (completeMove now) es gs)) k
     = Some (q\<lparr> isMoving := False, fromX := x q, fromY := y q \<rparr>) \<and>
   map_of (pendingMoves (fold (completeMove now) es gs)) k = None"
proof (induction es arbitrary: gs)
  case Nil
  then show ?case by simp
next
  case (Cons e es)
  from Cons.prems(1) have dist: "distinct (map fst es)" and fresh: "fst e \<notin> fst ` set es"
    by simp_all
  show ?case
  proof (cases "e = (k, c)")
    case True
    with fresh have "k \<notin> fst ` set es" by simp
    then have "\<forall>e' \<in> set es. fst e' = k \<longrightarrow> now < snd e'" by auto
    from fold_completeMove_untouched [OF this, of "completeMove now (k, c) gs"]
         completeMove_done [OF Cons.prems(3,4)] True
    show ?thesis by simp
  next
    case False
    with Cons.prems(2) have later: "(k, c) \<in> set es" by simp
    then have "fst (k, c) \<in> fst ` set es" by (rule imageI)
    with fresh have "fst e \<noteq> k" by auto
    from completeMove_other [OF this, of now gs] Cons.prems(4)
    have "map_of (players (completeMove now e gs)) k = Some q" by simp
    from Cons.IH [OF dist later Cons.prems(3) this] show ?thesis by simp
  qed
qed

lemma tick_traversing:
  assumes tr: "traversing gs k fx fy tx ty ct" and early: "now < ct"
  shows "traversing (GameServer_update gs now) k fx fy tx ty ct"
proof -
  from tr have wf: "wellFormed gs" and pm: "map_of (pendingMoves gs) k = Some ct"
    by (simp_all add: traversing_def)
  from wf have dist: "distinct (map fst (pendingMoves gs))" by (simp add: wellFormed_def)
  have "\<forall>e \<in> set (pendingMoves gs). fst e = k \<longrightarrow> now < snd e"
  proof (intro ballI impI)
    fix e assume mem: "e \<in> set (pendingMoves gs)" and key: "fst e = k"
    from key have "(k, snd e) = e" by auto
    with mem have "(k, snd e) \<in> set (pendingMoves gs)" by simp
    with dist have "map_of (pendingMoves gs) k = Some (snd e)" by simp
    with pm early show "now < snd e" by simp
  qed
  from fold_completeMove_untouched [OF this, of gs] fold_completeMove_wellFormed [OF wf, of now "pendingMoves gs"] tr
  show ?thesis
    by (simp add: traversing_def GameServer_update_def MovementSystem_update_def)
qed

lemma tick_completes:
  assumes tr: "traversing gs k fx fy tx ty ct" and late: "ct \<le> now"
  shows "\<exists>q. map_of (players (GameServer_update gs now)) k = Some q
           \<and> \<not> isMoving q \<and> fromX q = tx \<and> fromY q = ty \<and> x q = tx \<and> y q = ty"
    and "map_of (pendingMoves (GameServer_update gs now)) k = None"
proof -
  from tr have wf: "wellFormed gs" and pm: "map_of (pendingMoves gs) k = Some ct"
    by (simp_all add: traversing_def)
  from tr obtain q where q: "map_of (players gs) k = Some q" "x q = tx" "y q = ty"
    by (auto simp: traversing_def split: option.splits)
  from wf have dist: "distinct (map fst (pendingMoves gs))" by (simp add: wellFormed_def)
  from pm have "(k, ct) \<in> set (pendingMoves gs)" by (rule map_of_SomeD)
  note completed = fold_completeMove_done [OF dist this late q(1)]
  from completed q(2,3)
  show "\<exists>q. map_of (players (GameServer_update gs now)) k = Some q
           \<and> \<not> isMoving q \<and> fromX q = tx \<and> fromY q = ty \<and> x q = tx \<and> y q = ty"
    by (simp add: GameServer_update_def MovementSystem_update_def)
  from completed show "map_of (pendingMoves (GameServer_update gs now)) k = None"
    by (simp add: GameServer_update_def MovementSystem_update_def)
qed

lemma step_traversing:
  assumes tr: "traversing gs k fx fy tx ty ct" and ok: "before ct e"
  shows "traversing (step cfg gs e) k fx fy tx ty ct"
proof (cases e)
  case (Tick now)
  with ok tick_traversing [OF tr] show ?thesis by simp
next
  case (Face k' d)
  from tr obtain q where q: "map_of (players gs) k = Some q"
    by (auto simp: traversing_def split: option.splits)
  from tr have wf: "wellFormed gs" by (simp add: traversing_def)
  from GameServer_handleDirectionChange_player [OF q, of k' d]
       GameServer_handleDirectionChange_wellFormed [OF wf, of k' d]
       GameServer_handleDirectionChange_pending [of gs k' d] tr q Face
  show ?thesis by (auto simp: traversing_def)
next
  case (MoveStart k' cx cy d now)
  from tr obtain q where q: "map_of (players gs) k = Some q" "isMoving q"
    by (auto simp: traversing_def split: option.splits)
  from tr have wf: "wellFormed gs" by (simp add: traversing_def)
  note wf' = GameServer_handleMoveStart_wellFormed [OF wf, of cfg k' cx cy d now]
  show ?thesis
  proof (cases "k' = k")
    case True
    from GameServer_handleMoveStart_moving [OF q, of cfg cx cy d now] wf' tr q True MoveStart
    show ?thesis by (simp add: traversing_def)
  next
    case False
    from GameServer_handleMoveStart_other [OF wf False, of cfg cx cy d now] wf' tr MoveStart
    show ?thesis by (simp add: traversing_def)
  qed
qed

lemma run_traversing:
  "traversing gs k fx fy tx ty ct \<Longrightarrow> list_all (before ct) evs \<Longrightarrow>
   traversing (run cfg gs evs) k fx fy tx ty ct"
  by (induction evs arbitrary: gs) (simp_all add: step_traversing)


lemma accept_traversing:
  assumes wf: "wellFormed gs"
    and player: "map_of (players gs) k = Some p"
    and dirn: "0 \<le> n" "n \<le> 3"
    and idle: "\<not> isMoving p"
    and near: "manhattanDistance cx cy (of_int (x p)) (of_int (y p))
                 \<le> of_int (maxTeleportDistance cfg)"
    and vec: "map_of DIRECTION_VECTORS n = Some (dx, dy)"
    and gm: "fst (getMap (mapLoader gs) (mapId p)) = Some m"
    and walk: "isWalkable m (x p + dx) (y p + dy)"
    and free: "\<not> isTileOccupiedByEntity gs (x p + dx) (y p + dy) (mapId p) (ident p)"
    and timely: "\<not> (lastMoveTime p > 0 \<and>
                     of_int (now - lastMoveTime p)
                       < of_int (curSpeed p) * (1 - speedHackTolerance cfg))"
  shows "\<exists>q1. map_of (players (fst (GameServer_handleMoveStart cfg gs (Some k) cx cy
                                      (JNum (of_int n)) now))) k = Some q1
           \<and> traversing (fst (GameServer_handleMoveStart cfg gs (Some k) cx cy (JNum (of_int n)) now))
               k (x p) (y p) (x p + dx) (y p + dy) (now + curSpeed q1)"
proof -
  let ?gs1 = "fst (GameServer_handleMoveStart cfg gs (Some k) cx cy (JNum (of_int n)) now)"
  obtain maps' where gm': "getMap (mapLoader gs) (mapId p) = (Some m, maps')"
    using gm by (cases "getMap (mapLoader gs) (mapId p)") simp
  let ?p3 = "updateCurSpeed
               (p\<lparr> dir := n, fromX := x p, fromY := y p, isMoving := True,
                   moveStartTime := now, x := x p + dx, y := y p + dy, lastMoveTime := now \<rparr>)
               (getTileSpeedModifier (getTile m (x p + dx) (y p + dy)) (tileSpeed m))"
  let ?p4 = "?p3\<lparr> inputSequence := inputSequence ?p3 + 1 \<rparr>"
  have id: "ident p = k" by (rule wellFormed_ident [OF wf player])
  define hack where
    "hack = (lastMoveTime p > 0 \<and>
             of_int (now - lastMoveTime p) < of_int (curSpeed p) * (1 - speedHackTolerance cfg))"
  from timely have late: "\<not> hack" unfolding hack_def .
  have fields: "x ?p4 = x p + dx" "y ?p4 = y p + dy" "fromX ?p4 = x p" "fromY ?p4 = y p"
    "isMoving ?p4" "ident ?p3 = ident p" "curSpeed ?p4 = curSpeed ?p3"
    by (simp_all add: updateCurSpeed_def Let_def)
  have "\<exists>out. MovementSystem_handleMoveStart cfg gs p cx cy (JNum (of_int n)) now
               = (?p4,
                  gs\<lparr> mapLoader := maps',
                      pendingMoves := AList.update (ident ?p3) (now + curSpeed ?p3) (pendingMoves gs) \<rparr>,
                  out)"
    unfolding handleMoveStart_evaluated [OF dirn idle near vec gm', of now, folded hack_def]
    using walk free late by (simp add: Let_def)
  then obtain out where res:
    "MovementSystem_handleMoveStart cfg gs p cx cy (JNum (of_int n)) now
       = (?p4,
          gs\<lparr> mapLoader := maps',
              pendingMoves := AList.update (ident ?p3) (now + curSpeed ?p3) (pendingMoves gs) \<rparr>,
          out)" ..
  have gs1: "?gs1 = gs\<lparr> mapLoader := maps',
                         pendingMoves := AList.update (ident ?p3) (now + curSpeed ?p3) (pendingMoves gs),
                         players := AList.update k ?p4 (players gs) \<rparr>"
    using player res by (simp add: GameServer_handleMoveStart_def getPlayer_def)
  have pl: "map_of (players ?gs1) k = Some ?p4"
    unfolding gs1 by (simp add: update_conv')
  have pm: "map_of (pendingMoves ?gs1) k = Some (now + curSpeed ?p4)"
    unfolding gs1 using id fields(6,7) by (simp add: update_conv')
  have wf1: "wellFormed ?gs1"
    by (rule GameServer_handleMoveStart_wellFormed [OF wf])
  have "traversing ?gs1 k (x p) (y p) (x p + dx) (y p + dy) (now + curSpeed ?p4)"
    unfolding traversing_def using wf1 pm pl fields(1-5) by simp
  with pl show ?thesis by blast
qed

text \<open>
  Claim C7. Let a move-start intent of the participant \<open>k\<close> be accepted at time
  \<open>now\<close>, in a server whose tables are well formed. Then a pending move is scheduled
  for \<open>now + curSpeed\<close> (the speed on the destination tile), and after any sequence of
  packets (move-start or face-only, from anyone) and of ticks earlier than that time,
  \<open>fromX, fromY\<close> of the participant are still the position before the move, the
  participant stands on the new tile and is still moving. The first tick at or after the
  completion time sets \<open>fromX, fromY\<close> to the new position, clears the moving flag
  and removes the pending move.
\<close>

theorem C7_from_position_until_completion:
  assumes wf: "wellFormed gs"
    and player: "map_of (players gs) k = Some p"
    and dirn: "0 \<le> n" "n \<le> 3"
    and idle: "\<not> isMoving p"
    and near: "manhattanDistance cx cy (of_int (x p)) (of_int (y p))
                 \<le> of_int (maxTeleportDistance cfg)"
    and vec: "map_of DIRECTION_VECTORS n = Some (dx, dy)"
    and gm: "fst (getMap (mapLoader gs) (mapId p)) = Some m"
    and walk: "isWalkable m (x p + dx) (y p + dy)"
    and free: "\<not> isTileOccupiedByEntity gs (x p + dx) (y p + dy) (mapId p) (ident p)"
    and timely: "\<not> (lastMoveTime p > 0 \<and>
                     of_int (now - lastMoveTime p)
                       < of_int (curSpeed p) * (1 - speedHackTolerance cfg))"
    and accepted: "gs1 = fst (GameServer_handleMoveStart cfg gs (Some k) cx cy (JNum (of_int n)) now)"
  shows "\<exists>q1 completeTime.
           map_of (players gs1) k = Some q1
         \<and> map_of (pendingMoves gs1) k = Some completeTime
         \<and> completeTime = now + curSpeed q1
         \<and> (\<forall>evs. list_all (before completeTime) evs \<longrightarrow>
               (\<exists>q. map_of (players (run cfg gs1 evs)) k = Some q
                  \<and> fromX q = x p \<and> fromY q = y p
                  \<and> x q = x p + dx \<and> y q = y p + dy \<and> isMoving q)
             \<and> (\<forall>t. completeTime \<le> t \<longrightarrow>
                  (\<exists>q. map_of (players (step cfg (run cfg gs1 evs) (Tick t))) k = Some q
                     \<and> fromX q = x p + dx \<and> fromY q = y p + dy
                     \<and> x q = x p + dx \<and> y q = y p + dy \<and> \<not> isMoving q)
                  \<and> map_of (pendingMoves (step cfg (run cfg gs1 evs) (Tick t))) k = None))"
proof -
  from accept_traversing [OF wf player dirn idle near vec gm walk free timely]
  obtain q1 where q1: "map_of (players gs1) k = Some q1"
    and tr: "traversing gs1 k (x p) (y p) (x p + dx) (y p + dy) (now + curSpeed q1)"
    unfolding accepted by blast
  let ?ct = "now + curSpeed q1"
  from tr have pm: "map_of (pendingMoves gs1) k = Some ?ct" by (simp add: traversing_def)
  have later: "(\<exists>q. map_of (players (run cfg gs1 evs)) k = Some q
                  \<and> fromX q = x p \<and> fromY q = y p
                  \<and> x q = x p + dx \<and> y q = y p + dy \<and> isMoving q)
             \<and> (\<forall>t. ?ct \<le> t \<longrightarrow>
                  (\<exists>q. map_of (players (step cfg (run cfg gs1 evs) (Tick t))) k = Some q
                     \<and> fromX q = x p + dx \<and> fromY q = y p + dy
                     \<and> x q = x p + dx \<and> y q = y p + dy \<and> \<not> isMoving q)
                  \<and> map_of (pendingMoves (step cfg (run cfg gs1 evs) (Tick t))) k = None)"
    if early: "list_all (before ?ct) evs" for evs
  proof -
    note tr' = run_traversing [OF tr early, of cfg]
    from tr' have a: "\<exists>q. map_of (players (run cfg gs1 evs)) k = Some q
                  \<and> fromX q = x p \<and> fromY q = y p
                  \<and> x q = x p + dx \<and> y q = y p + dy \<and> isMoving q"
      by (auto simp: traversing_def split: option.splits)
    have b: "(\<exists>q. map_of (players (step cfg (run cfg gs1 evs) (Tick t))) k = Some q
                     \<and> fromX q = x p + dx \<and> fromY q = y p + dy
                     \<and> x q = x p + dx \<and> y q = y p + dy \<and> \<not> isMoving q)
                  \<and> map_of (pendingMoves (step cfg (run cfg gs1 evs) (Tick t))) k = None"
      if "?ct \<le> t" for t
      using tick_completes [OF tr' that] by auto
    from a b show ?thesis by blast
  qed
  with q1 pm show ?thesis by blast
qed


lemma lobby_wellFormed: "wellFormed (lobby [(''alice'', alice)])"
  by (simp add: wellFormed_def lobby_fields alice_fields)

lemma alice_accepted:
  assumes "players gs = [(''alice'', alice)]" "mobs gs = []"
    and "mapLoader gs = [(''overworld'', loadMap)]"
  shows "GameServer_handleMoveStart config_security gs (Some ''alice'') 50 50 (JNum 1) now
         = (gs\<lparr> pendingMoves := AList.update ''alice'' (now + 750) (pendingMoves gs),
                players := [(''alice'',
                   alice\<lparr> dir := 1, fromX := 50, fromY := 50, isMoving := True,
                          moveStartTime := now, x := 51, y := 50, lastMoveTime := now,
                          inputSequence := 1 \<rparr>)] \<rparr>,
            [BroadcastToNearby 51 50 ''overworld''
                 [(''type'', JStr ''move''), (''id'', JStr ''alice''), (''x'', JNum 51), (''y'', JNum 50)]
                 (Some ''alice'')])"
proof -
  have gm: "getMap (mapLoader gs) (mapId alice) = (Some loadMap, mapLoader gs)"
    using assms(3) by (simp add: getMap_def alice_fields)
  have w: "isWalkable loadMap 51 50" by (rule loadMap_inner_walkable) simp_all
  have t: "getTile loadMap 51 50 = Some 0" by (rule loadMap_tile) simp_all
  have free: "\<not> isTileOccupiedByEntity gs 51 50 ''overworld'' ''alice''"
    using assms(1,2) by (simp add: isTileOccupiedByEntity_def occupies_def alice_fields)
  have near: "manhattanDistance (of_int 50) (of_int 50) (of_int (x alice)) (of_int (y alice))
                \<le> of_int (maxTeleportDistance config_security)"
    by (simp add: manhattanDistance_def alice_fields default_teleport)
  have vec: "map_of DIRECTION_VECTORS 1 = Some (1, 0)"
    by (simp add: DIRECTION_VECTORS_def)
  have idle: "\<not> isMoving alice" by (simp add: alice_fields)
  have sp: "tileSpeed loadMap = []" by (simp add: loadMap_def)
  have same: "gs\<lparr> mapLoader := mapLoader gs \<rparr> = gs" by simp
  have moved: "MovementSystem_handleMoveStart config_security gs alice (of_int 50) (of_int 50)
                 (JNum (of_int 1)) now
        = (alice\<lparr> dir := 1, fromX := 50, fromY := 50, isMoving := True, moveStartTime := now,
                    x := 51, y := 50, lastMoveTime := now, inputSequence := 1 \<rparr>,
            gs\<lparr> pendingMoves := AList.update ''alice'' (now + 750) (pendingMoves gs) \<rparr>,
            [BroadcastToNearby 51 50 ''overworld''
                 [(''type'', JStr ''move''), (''id'', JStr ''alice''), (''x'', JNum 51), (''y'', JNum 50)]
                 (Some ''alice'')])"
    by (subst handleMoveStart_evaluated [OF _ _ idle near vec gm])
       (simp_all add: alice_fields w t sp free same Let_def updateCurSpeed_def
          getTileSpeedModifier_def toMovePacket_def alice_def default_tolerance)
  show ?thesis
    using moved assms(1)
    by (simp add: GameServer_handleMoveStart_def getPlayer_def)
qed

theorem C7_witness:
  "(\<exists>q. map_of (players (run config_security
                  (fst (GameServer_handleMoveStart config_security (lobby [(''alice'', alice)])
                          (Some ''alice'') 50 50 (JNum 1) 5000))
                  [Tick 5050, MoveStart ''alice'' 51 50 (JNum 1) 5100, Face ''alice'' (JNum 0),
                   Tick 5700])) ''alice'' = Some q
        \<and> fromX q = 50 \<and> fromY q = 50 \<and> x q = 51 \<and> y q = 50 \<and> isMoving q)
   \<and> (\<exists>q. map_of (players (step config_security (run config_security
                  (fst (GameServer_handleMoveStart config_security (lobby [(''alice'', alice)])
                          (Some ''alice'') 50 50 (JNum 1) 5000))
                  [Tick 5050, MoveStart ''alice'' 51 50 (JNum 1) 5100, Face ''alice'' (JNum 0),
                   Tick 5700]) (Tick 5750))) ''alice'' = Some q
        \<and> fromX q = 51 \<and> fromY q = 50 \<and> x q = 51 \<and> y q = 50 \<and> \<not> isMoving q)"
proof -
  let ?gs = "lobby [(''alice'', alice)]"
  let ?gs1 = "fst (GameServer_handleMoveStart config_security ?gs (Some ''alice'') 50 50 (JNum 1) 5000)"
  let ?evs = "[Tick 5050, MoveStart ''alice'' 51 50 (JNum 1) 5100, Face ''alice'' (JNum 0), Tick 5700]"
  have player: "map_of (players ?gs) ''alice'' = Some alice" by (simp add: lobby_fields)
  have one: "(0::int) \<le> 1" "(1::int) \<le> 3" by simp_all
  have idle: "\<not> isMoving alice" by (simp add: alice_fields)
  have near: "manhattanDistance 50 50 (of_int (x alice)) (of_int (y alice))
                \<le> of_int (maxTeleportDistance config_security)"
    by (simp add: manhattanDistance_def alice_fields default_teleport)
  have vec: "map_of DIRECTION_VECTORS 1 = Some (1, 0)"
    by (simp add: DIRECTION_VECTORS_def)
  have gm: "fst (getMap (mapLoader ?gs) (mapId alice)) = Some loadMap"
    using lobby_map [of "[(''alice'', alice)]"] by (simp add: alice_fields)
  have w: "isWalkable loadMap (x alice + 1) (y alice + 0)"
    unfolding alice_fields by (rule loadMap_inner_walkable) simp_all
  have free: "\<not> isTileOccupiedByEntity ?gs (x alice + 1) (y alice + 0) (mapId alice) (ident alice)"
    by (simp add: isTileOccupiedByEntity_def lobby_fields occupies_def alice_fields)
  have timely: "\<not> (lastMoveTime alice > 0 \<and>
                     of_int (5000 - lastMoveTime alice)
                       < of_int (curSpeed alice) * (1 - speedHackTolerance config_security))"
    by (simp add: alice_fields)
  have acc: "?gs1 = fst (GameServer_handleMoveStart config_security ?gs (Some ''alice'') 50 50
                           (JNum (of_int 1)) 5000)"
    by simp
  from C7_from_position_until_completion
         [OF lobby_wellFormed player one idle near vec gm w free timely acc]
  obtain q1 ct where pm: "map_of (pendingMoves ?gs1) ''alice'' = Some ct"
    and rest: "\<forall>evs. list_all (before ct) evs \<longrightarrow>
               (\<exists>q. map_of (players (run config_security ?gs1 evs)) ''alice'' = Some q
                  \<and> fromX q = x alice \<and> fromY q = y alice
                  \<and> x q = x alice + 1 \<and> y q = y alice + 0 \<and> isMoving q)
             \<and> (\<forall>t. ct \<le> t \<longrightarrow>
                  (\<exists>q. map_of (players (step config_security (run config_security ?gs1 evs) (Tick t)))
                          ''alice'' = Some q
                     \<and> fromX q = x alice + 1 \<and> fromY q = y alice + 0
                     \<and> x q = x alice + 1 \<and> y q = y alice + 0 \<and> \<not> isMoving q)
                  \<and> map_of (pendingMoves (step config_security (run config_security ?gs1 evs) (Tick t)))
                       ''alice'' = None)"
    by blast
  have "pendingMoves ?gs1 = [(''alice'', 5750)]"
    by (subst alice_accepted) (simp_all add: lobby_fields)
  with pm have ct: "ct = 5750" by simp
  have early: "list_all (before ct) ?evs" by (simp add: ct)
  from rest early have "(\<exists>q. map_of (players (run config_security ?gs1 ?evs)) ''alice'' = Some q
                  \<and> fromX q = x alice \<and> fromY q = y alice
                  \<and> x q = x alice + 1 \<and> y q = y alice + 0 \<and> isMoving q)
             \<and> (\<forall>t. ct \<le> t \<longrightarrow>
                  (\<exists>q. map_of (players (step config_security (run config_security ?gs1 ?evs) (Tick t)))
                          ''alice'' = Some q
                     \<and> fromX q = x alice + 1 \<and> fromY q = y alice + 0
                     \<and> x q = x alice + 1 \<and> y q = y alice + 0 \<and> \<not> isMoving q)
                  \<and> map_of (pendingMoves (step config_security (run config_security ?gs1 ?evs) (Tick t)))
                       ''alice'' = None)"
    by blast
  then show ?thesis
    by (simp add: alice_fields ct del: run.simps step.simps)
qed


text \<open>The tick never writes a position: it only completes pending moves.\<close>

lemma completeMove_positionOf: "positionOf (completeMove now e gs) k = positionOf gs k"
  by (cases e)
     (simp add: completeMove_def positionOf_def getPlayer_def Let_def update_conv'
        split: option.split)

lemma GameServer_update_positionOf: "positionOf (GameServer_update gs now) k = positionOf gs k"
proof -
  have "positionOf (fold (completeMove now) es g) k = positionOf g k" for es g
    by (induction es arbitrary: g) (simp_all add: completeMove_positionOf)
  then show ?thesis by (simp add: GameServer_update_def MovementSystem_update_def)
qed

lemma GameServer_handleDirectionChange_positionOf:
  "positionOf (fst (GameServer_handleDirectionChange gs pid d)) k = positionOf gs k"
  by (simp add: GameServer_handleDirectionChange_def getPlayer_def positionOf_def update_conv'
        MovementSystem_handleDirectionChange_def Let_def
        split: option.split jsval.split)

text \<open>
  Claim C1. The position is written when the packet is received, not in the tick.
  Alice stands at (50, 50); her client's packet \<open>{type: "h", x: 50, y: 50, d: 1}\<close>
  passes \<open>handleMessage\<close>, is routed to the move-start handler and leaves her at
  (51, 50) before any tick runs; the tick itself leaves every position as it finds it
  (\<open>GameServer_update_positionOf\<close>).
\<close>

theorem C1_position_written_on_packet_receipt:
  "positionOf (lobby [(''alice'', alice)]) ''alice'' = Some (50, 50)
   \<and> positionOf
       (fst (handleMessage config_security (lobby [(''alice'', alice)]) ''session-alice''
               (Some (JsonObject [(''type'', JStr ''h''), (''x'', JNum 50), (''y'', JNum 50),
                                  (''d'', JNum 1)])) 5000))
       ''alice'' = Some (51, 50)
   \<and> snd (snd (handleMessage config_security (lobby [(''alice'', alice)]) ''session-alice''
                  (Some (JsonObject [(''type'', JStr ''h''), (''x'', JNum 50), (''y'', JNum 50),
                                     (''d'', JNum 1)])) 5000))
       = Handled ''h''
   \<and> positionOf (GameServer_update (lobby [(''alice'', alice)]) 5000) ''alice'' = Some (50, 50)"
proof -
  let ?gs = "lobby [(''alice'', alice)]"
  let ?pkt = "[(''type'', JStr ''h''), (''x'', JNum 50), (''y'', JNum 50), (''d'', JNum 1)]"
  let ?c = "\<lparr> sessionId = ''session-alice'', client_playerId = Some ''alice'',
               authenticated = True, lastActivity = 5000 \<rparr>"
  let ?gs2 = "?gs\<lparr> network := \<lparr> clients = [(''session-alice'', ?c)],
                                  rateLimiter = \<lparr> maxPerSecond = 60,
                                    buckets = [(''session-alice'', \<lparr> count = 1, resetTime = 6000 \<rparr>)] \<rparr> \<rparr> \<rparr>"
  have before: "positionOf ?gs ''alice'' = Some (50, 50)"
    by (simp add: positionOf_def lobby_fields alice_fields)
  have v: "validate (JsonObject ?pkt)"
    by (simp add: validate_h getprop_def Number_isFinite_def isValidDirection_def
          Number_isInteger_def)
  have recv: "handleMessage config_security ?gs ''session-alice'' (Some (JsonObject ?pkt)) 5000
              = route config_security ?gs2 ?c (JsonObject ?pkt) 5000"
    using v by (simp add: handleMessage_def lobby_def RateLimiter_check_def Let_def)
  have routed: "route config_security ?gs2 ?c (JsonObject ?pkt) 5000
                = (case GameServer_handleMoveStart config_security ?gs2 (Some ''alice'') 50 50
                          (JNum 1) 5000 of
                     (gs', out) \<Rightarrow> (gs', out, Handled ''h''))"
    by (simp add: route_def handlers_def handle_h_def getprop_def)
  obtain gs' out
    where r: "GameServer_handleMoveStart config_security ?gs2 (Some ''alice'') 50 50 (JNum 1) 5000
                = (gs', out)"
    by (cases "GameServer_handleMoveStart config_security ?gs2 (Some ''alice'') 50 50 (JNum 1) 5000")
  have "players (fst (GameServer_handleMoveStart config_security ?gs2 (Some ''alice'') 50 50
                        (JNum 1) 5000))
        = [(''alice'',
            alice\<lparr> dir := 1, fromX := 50, fromY := 50, isMoving := True,
                   moveStartTime := 5000, x := 51, y := 50, lastMoveTime := 5000,
                   inputSequence := 1 \<rparr>)]"
    by (subst alice_accepted) (simp_all add: lobby_fields)
  with r have moved: "positionOf gs' ''alice'' = Some (51, 50)"
    by (simp add: positionOf_def)
  have after: "positionOf (fst (handleMessage config_security ?gs ''session-alice''
                                  (Some (JsonObject ?pkt)) 5000)) ''alice'' = Some (51, 50)"
    unfolding recv routed r using moved by simp
  have handled: "snd (snd (handleMessage config_security ?gs ''session-alice''
                             (Some (JsonObject ?pkt)) 5000)) = Handled ''h''"
    unfolding recv routed r by simp
  have tick: "positionOf (GameServer_update ?gs 5000) ''alice'' = Some (50, 50)"
    by (simp add: GameServer_update_positionOf before)
  from before after handled tick show ?thesis by simp
qed

theorem C1_witness:
  "positionOf
     (fst (handleMessage config_security (lobby [(''alice'', alice)]) ''session-alice''
             (Some (JsonObject [(''type'', JStr ''h''), (''x'', JNum 50), (''y'', JNum 50),
                                (''d'', JNum 1)])) 5000))
     ''alice''
   \<noteq> positionOf (lobby [(''alice'', alice)]) ''alice''"
  using C1_position_written_on_packet_receipt by simp

text \<open>A move-start packet of one participant leaves every other participant's position alone.\<close>

lemma GameServer_handleMoveStart_positionOf_other:
  assumes "k' \<noteq> k"
  shows "positionOf (fst (GameServer_handleMoveStart cfg gs (Some k') cx cy d now)) k
           = positionOf gs k"
proof (cases "map_of (players gs) k'")
  case None
  then show ?thesis by (simp add: GameServer_handleMoveStart_def getPlayer_def)
next
  case (Some p)
  obtain p' gs' out
    where r: "MovementSystem_handleMoveStart cfg gs p cx cy d now = (p', gs', out)"
    by (cases "MovementSystem_handleMoveStart cfg gs p cx cy d now")
  have "players gs' = players gs"
    using handleMoveStart_players [of cfg gs p cx cy d now] r by simp
  with Some r assms show ?thesis
    by (simp add: GameServer_handleMoveStart_def getPlayer_def positionOf_def update_conv')
qed

end
